theory Spec2Isabelle
  imports Complex_Main "HOL-Library.Multiset" "HOL-Library.Char_ord" "HOL-Library.List_Lexorder"
begin

section \<open>Rate and disparity computations of the gifted identification dashboard\<close>

text \<open>
  The analytical core of \<^verbatim>\<open>integrated_gifted_dashboard_recommendations.py\<close> consists of
  \<^verbatim>\<open>_safe_rate\<close>, \<^verbatim>\<open>selection_rate\<close>, \<^verbatim>\<open>group_rates\<close>, \<^verbatim>\<open>disparity_table\<close> and \<^verbatim>\<open>pct\<close>.
  They are embedded here as functions over lists of rows.

  Conventions of the embedding:
  \<^item> a Python \<^verbatim>\<open>float\<close> is an exact rational or \<^verbatim>\<open>nan\<close>: the infinities of IEEE
    arithmetic are not represented, so every statement is about frames whose numeric
    outcomes are finite; sums and quotients are exact, except in the second embedding of
    the selection rate (\<open>selection_rate_dbl\<close>), which rounds every operation to double
    precision;
  \<^item> a data frame is the list of its rows, each row carrying the value of the grouping
    column and the value of the outcome column (so both columns exist and have the same
    length; the \<^verbatim>\<open>KeyError\<close> of an absent column cannot arise);
  \<^item> an exception is a value \<open>Inl e\<close> of a sum type.
\<close>

subsection \<open>Values\<close>

text \<open>
  A \<^verbatim>\<open>float\<close>: a finite value, or \<^verbatim>\<open>nan\<close>. The values \<^verbatim>\<open>inf\<close> and \<^verbatim>\<open>-inf\<close> have no
  counterpart here.
\<close>

datatype pyfloat = Fin rat | NaN

text \<open>
  A cell of the outcome column: a number (also a string that \<^verbatim>\<open>float()\<close> parses, taken at
  its value), a missing value (\<^verbatim>\<open>nan\<close> or \<^verbatim>\<open>None\<close>), or an object that
  \<^verbatim>\<open>astype(float)\<close> rejects with \<^verbatim>\<open>ValueError\<close>, such as the string \<^verbatim>\<open>'abc'\<close>.
\<close>

datatype cell = Num rat | NA | NonNumeric

text \<open>A value of the grouping column: a label, or the missing value.\<close>

datatype 'k gkey = Key 'k | KeyNaN

datatype error = ValueError | TypeError | IndexError

record 'k row =
  grp :: "'k gkey"
  outcome :: cell

type_synonym 'k dataframe = "'k row list"

subsection \<open>Float operations\<close>

fun isnan :: "pyfloat \<Rightarrow> bool" where
  "isnan NaN = True"
| "isnan (Fin x) = False"

text \<open>Truth value of a float: only zero is false; \<^verbatim>\<open>bool(nan)\<close> is \<^verbatim>\<open>True\<close>.\<close>

fun truthy :: "pyfloat \<Rightarrow> bool" where
  "truthy NaN = True"
| "truthy (Fin x) = (x \<noteq> 0)"

text \<open>\<^verbatim>\<open>x > 0\<close>: every comparison with \<^verbatim>\<open>nan\<close> is false.\<close>

fun gt_zero :: "pyfloat \<Rightarrow> bool" where
  "gt_zero NaN = False"
| "gt_zero (Fin x) = (0 < x)"

fun fl_sub :: "pyfloat \<Rightarrow> pyfloat \<Rightarrow> pyfloat" where
  "fl_sub (Fin a) (Fin b) = Fin (a - b)"
| "fl_sub a b = NaN"

text \<open>
  Division of a column entry by a scalar. With a zero divisor numpy yields an infinity or
  \<^verbatim>\<open>nan\<close>; \<open>disparity_table\<close> divides only behind the guard \<^verbatim>\<open>> 0\<close>.
\<close>

fun fl_div :: "pyfloat \<Rightarrow> pyfloat \<Rightarrow> pyfloat" where
  "fl_div (Fin a) (Fin b) = (if b = 0 then NaN else Fin (a / b))"
| "fl_div a b = NaN"

fun fin_val :: "pyfloat \<Rightarrow> rat" where
  "fin_val (Fin x) = x"
| "fin_val NaN = 0"

subsection \<open>\<^verbatim>\<open>_safe_rate\<close> and \<^verbatim>\<open>selection_rate\<close>\<close>

fun coerce :: "cell \<Rightarrow> error + pyfloat" where
  "coerce (Num x) = Inr (Fin x)"
| "coerce NA = Inr NaN"
| "coerce NonNumeric = Inl ValueError"

text \<open>\<^verbatim>\<open>Series.astype(float)\<close>: converts every element, raising at the first that fails.\<close>

fun astype_float :: "cell list \<Rightarrow> error + pyfloat list" where
  "astype_float [] = Inr []"
| "astype_float (c # cs) =
     (case coerce c of
        Inl e \<Rightarrow> Inl e
      | Inr v \<Rightarrow> (case astype_float cs of Inl e \<Rightarrow> Inl e | Inr vs \<Rightarrow> Inr (v # vs)))"

text \<open>
  \<^verbatim>\<open>np.nansum\<close>: the sum with every \<^verbatim>\<open>nan\<close> taken as zero; the sum of nothing is zero.
  The sum is exact here. It is the sum numpy computes whenever all partial sums are
  doubles, as with 0/1 outcomes and counts (\<open>selection_rate_dbl_exact\<close> below); the rounded
  sum is \<open>tsum\<close>.
\<close>

definition nansum :: "pyfloat list \<Rightarrow> rat" where
  "nansum xs = sum_list (map fin_val xs)"

text \<open>
  \<^verbatim>\<open>
  def _safe_rate(numer, denom):
      try:
          n = float(np.nansum(numer.astype(float)))
          d = float(np.nansum(denom.astype(float)))
          return n / d if d > 0 else np.nan
      except Exception:
          return np.nan
  \<close>
\<close>

definition safe_rate :: "cell list \<Rightarrow> cell list \<Rightarrow> pyfloat" where
  "safe_rate numer denom =
     (case astype_float numer of
        Inl e \<Rightarrow> NaN
      | Inr ns \<Rightarrow>
          (case astype_float denom of
             Inl e \<Rightarrow> NaN
           | Inr ds \<Rightarrow>
               (let n = nansum ns; d = nansum ds
                in if 0 < d then Fin (n / d) else NaN)))"

text \<open>\<^verbatim>\<open>pd.Series(np.ones(len(df)))\<close>\<close>

definition ones :: "nat \<Rightarrow> cell list" where
  "ones m = replicate m (Num 1)"

definition selection_rate :: "'k dataframe \<Rightarrow> pyfloat" where
  "selection_rate df = safe_rate (map outcome df) (ones (length df))"

text \<open>
  The dashboard passes its outcome columns through \<^verbatim>\<open>pd.to_numeric(df[c], errors="coerce")\<close>
  before any rate is computed: what does not parse as a number becomes \<^verbatim>\<open>nan\<close>.
\<close>

fun to_numeric :: "cell \<Rightarrow> cell" where
  "to_numeric (Num x) = Num x"
| "to_numeric NA = NA"
| "to_numeric NonNumeric = NA"

definition coerce_outcomes :: "'k dataframe \<Rightarrow> 'k dataframe" where
  "coerce_outcomes df = map (\<lambda>r. r\<lparr>outcome := to_numeric (outcome r)\<rparr>) df"

subsection \<open>\<^verbatim>\<open>group_rates\<close>\<close>

record 'k grouprate =
  gr_group :: "'k gkey"
  gr_rate :: pyfloat
  gr_n :: "nat option"

text \<open>
  \<^verbatim>\<open>groupby(group_col, dropna=False)\<close> with the default \<^verbatim>\<open>sort=True\<close>: the distinct labels in
  ascending order, the missing label (kept by \<^verbatim>\<open>dropna=False\<close>) last.
\<close>

definition labels :: "'k gkey list \<Rightarrow> 'k list" where
  "labels ks = concat (map (\<lambda>k. case k of Key a \<Rightarrow> [a] | KeyNaN \<Rightarrow> []) ks)"

definition group_keys :: "('k::linorder) dataframe \<Rightarrow> 'k gkey list" where
  "group_keys df =
     (let ks = map grp df
      in map Key (sort (remdups (labels ks)))
         @ (if KeyNaN \<in> set ks then [KeyNaN] else []))"

definition group_frame :: "'k dataframe \<Rightarrow> 'k gkey \<Rightarrow> 'k dataframe" where
  "group_frame df k = filter (\<lambda>r. grp r = k) df"

text \<open>
  \<^verbatim>\<open>df.groupby(...).apply(lambda x: selection_rate(x, outcome_col)).reset_index(name="rate")\<close>.
  On a frame with at least one row \<^verbatim>\<open>apply\<close> returns a Series indexed by the group labels.
  On a frame without rows there is no group, \<^verbatim>\<open>apply\<close> returns an empty DataFrame, and
  \<^verbatim>\<open>DataFrame.reset_index\<close> has no parameter \<^verbatim>\<open>name\<close>: the call raises \<^verbatim>\<open>TypeError\<close>.
\<close>

definition groupby_apply_rate :: "('k::linorder) dataframe \<Rightarrow> error + ('k gkey \<times> pyfloat) list" where
  "groupby_apply_rate df =
     (if df = [] then Inl TypeError
      else Inr (map (\<lambda>k. (k, selection_rate (group_frame df k))) (group_keys df)))"

text \<open>
  \<^verbatim>\<open>df[group_col].value_counts(dropna=False)\<close> with its two columns renamed: one entry for
  every distinct label, with the number of rows carrying it. (pandas orders the entries by
  count; the left merge below does not depend on their order.)
\<close>

definition value_counts :: "'k dataframe \<Rightarrow> ('k gkey \<times> nat) list" where
  "value_counts df = map (\<lambda>k. (k, length (group_frame df k))) (remdups (map grp df))"

text \<open>
  \<^verbatim>\<open>g.merge(totals, on=group_col, how="left")\<close>: the rows of \<open>g\<close> in their order, each with the
  count of its label; a label without entry in \<open>totals\<close> gets a missing count. (The labels
  of \<open>totals\<close> are distinct, so no row is duplicated; missing labels match each other.)
\<close>

definition merge_left :: "('k gkey \<times> pyfloat) list \<Rightarrow> ('k gkey \<times> nat) list \<Rightarrow> 'k grouprate list" where
  "merge_left g totals =
     map (\<lambda>(k, r). \<lparr>gr_group = k, gr_rate = r, gr_n = map_of totals k\<rparr>) g"

text \<open>
  \<^verbatim>\<open>sort_values("rate", ascending=False)\<close>: the rows with a defined rate by descending rate,
  then the rows whose rate is \<^verbatim>\<open>nan\<close> (\<^verbatim>\<open>na_position="last"\<close>) in their previous order.
  The source does not request a stable sort kind, and where the default kind puts rows of
  equal rate depends on the number of rows and on the numpy build. Here they keep their
  previous order; that is one of the possible outcomes, and no property stated of the code
  below depends on it: what is proved of the result is that it is a permutation of the
  rows, sorted by descending rate with the undefined rates last.
\<close>

definition sort_values_desc :: "'k grouprate list \<Rightarrow> 'k grouprate list" where
  "sort_values_desc rows =
     sort_key (\<lambda>r. - fin_val (gr_rate r)) (filter (\<lambda>r. \<not> isnan (gr_rate r)) rows)
     @ filter (\<lambda>r. isnan (gr_rate r)) rows"

definition group_rates :: "('k::linorder) dataframe \<Rightarrow> error + 'k grouprate list" where
  "group_rates df =
     (case groupby_apply_rate df of
        Inl e \<Rightarrow> Inl e
      | Inr g \<Rightarrow> Inr (sort_values_desc (merge_left g (value_counts df))))"

subsection \<open>\<^verbatim>\<open>disparity_table\<close>\<close>

record 'k disparityrow =
  d_group :: "'k gkey"
  d_rate :: pyfloat
  d_n :: "nat option"
  rate_diff_vs_overall :: pyfloat
  risk_ratio_vs_overall :: pyfloat
  rate_vs_ref :: pyfloat
  reference_group :: "'k gkey option"

text \<open>
  \<^verbatim>\<open>rates[group_col] == reference\<close>: a missing label equals nothing (not even itself), and
  no label equals \<^verbatim>\<open>None\<close>.
\<close>

fun label_eq :: "'k gkey \<Rightarrow> 'k gkey option \<Rightarrow> bool" where
  "label_eq (Key a) (Some (Key b)) = (a = b)"
| "label_eq k r = False"

text \<open>
  \<^verbatim>\<open>float(rates.loc[rates[group_col] == reference, "rate"].values[0])\<close>: the rate of the first
  matching row; \<^verbatim>\<open>IndexError\<close> when no row matches.
\<close>

definition ref_lookup :: "'k grouprate list \<Rightarrow> 'k gkey option \<Rightarrow> error + pyfloat" where
  "ref_lookup rates reference =
     (case filter (\<lambda>r. label_eq (gr_group r) reference) rates of
        [] \<Rightarrow> Inl IndexError
      | r # rs \<Rightarrow> Inr (gr_rate r))"

text \<open>The guard \<^verbatim>\<open>x and not np.isnan(x) and x > 0\<close> of both ratio columns.\<close>

definition usable :: "pyfloat \<Rightarrow> bool" where
  "usable x = (truthy x \<and> \<not> isnan x \<and> gt_zero x)"

definition disparity_table ::
  "('k::linorder) dataframe \<Rightarrow> 'k gkey option \<Rightarrow> error + 'k disparityrow list" where
  "disparity_table df reference =
     (case group_rates df of
        Inl e \<Rightarrow> Inl e
      | Inr rates \<Rightarrow>
          (let overall = selection_rate df;
               reference' = (if reference = None \<and> 0 < length rates
                             then Some (gr_group (rates ! 0)) else reference);
               ref_rate = (case ref_lookup rates reference' of
                             Inl e \<Rightarrow> overall
                           | Inr v \<Rightarrow> v)
           in Inr (map (\<lambda>r.
                \<lparr>d_group = gr_group r, d_rate = gr_rate r, d_n = gr_n r,
                 rate_diff_vs_overall = fl_sub (gr_rate r) overall,
                 risk_ratio_vs_overall =
                   (if usable overall then fl_div (gr_rate r) overall else NaN),
                 rate_vs_ref =
                   (if usable ref_rate then fl_div (gr_rate r) ref_rate else NaN),
                 reference_group = reference'\<rparr>) rates)))"

subsection \<open>\<^verbatim>\<open>pct\<close>\<close>

text \<open>
  \<^verbatim>\<open>
  def pct(x):
      return "-" if np.isnan(x) else f"{x*100:0.1f}%"
  \<close>
  The format \<^verbatim>\<open>0.1f\<close> prints the sign of a negative number, the integer part in decimal
  and one fractional digit, rounding the exact value to the nearest tenth, a tie to the
  even neighbour. The embedding rounds the exact rational; a \<^verbatim>\<open>float\<close> that is not a
  multiple of a power of two lies slightly off the decimal it was written as, which can
  decide a tie the other way.
\<close>

definition digit_char :: "nat \<Rightarrow> char" where
  "digit_char d = ''0123456789'' ! d"

function string_of_nat :: "nat \<Rightarrow> string" where
  "string_of_nat m =
     (if m < 10 then [digit_char m] else string_of_nat (m div 10) @ [digit_char (m mod 10)])"
  by pat_completeness auto
termination
  by (relation "measure (\<lambda>m. m)") auto

declare string_of_nat.simps [simp del]

definition round_half_even :: "rat \<Rightarrow> int" where
  "round_half_even q =
     (let f = \<lfloor>q\<rfloor>; d = q - of_int f
      in if d < 1 / 2 then f
         else if 1 / 2 < d then f + 1
         else if even f then f else f + 1)"

definition format_1f :: "rat \<Rightarrow> string" where
  "format_1f y =
     (let a = nat \<bar>round_half_even (y * 10)\<bar>
      in (if y < 0 then ''-'' else '''')
         @ string_of_nat (a div 10) @ ''.'' @ [digit_char (a mod 10)])"

fun pct :: "pyfloat \<Rightarrow> string" where
  "pct NaN = ''-''"
| "pct (Fin x) = format_1f (x * 100) @ ''%''"

subsection \<open>Double precision\<close>

text \<open>
  The functions above take the sums and quotients of \<^verbatim>\<open>float\<close>s exactly. For the one question
  where the rounding of IEEE doubles decides, whether the order of the rows matters, the
  rate is embedded a second time with every sum and the quotient rounded to the nearest
  double, a tie to the even neighbour.

  A double is \<open>m * 2 ^ e\<close> with an integer \<open>m\<close> below \<open>2 ^ 53\<close> in size and
  \<open>-1074 \<le> e \<le> 971\<close>. \<open>dexp a\<close> is the exponent at which \<open>a > 0\<close> has a significand of
  exactly 53 bits; the search stops at \<open>-1074\<close>, where the subnormal numbers lie, and at
  971. Overflow to an infinity is not represented.
\<close>

fun norm_up :: "nat \<Rightarrow> rat \<Rightarrow> int \<Rightarrow> int" where
  "norm_up 0 a e = e"
| "norm_up (Suc k) a e = (if 2 ^ 53 * 2 powi e \<le> a then norm_up k a (e + 1) else e)"

fun norm_down :: "nat \<Rightarrow> rat \<Rightarrow> int \<Rightarrow> int" where
  "norm_down 0 a e = e"
| "norm_down (Suc k) a e = (if a < 2 ^ 52 * 2 powi e then norm_down k a (e - 1) else e)"

definition dexp :: "rat \<Rightarrow> int" where
  "dexp a = (if 2 ^ 53 \<le> a then norm_up 971 a 0 else norm_down 1074 a 0)"

definition round_double :: "rat \<Rightarrow> rat" where
  "round_double x =
     (if x = 0 then 0
      else let e = dexp \<bar>x\<bar> in of_int (round_half_even (x / 2 powi e)) * 2 powi e)"

text \<open>
  \<^verbatim>\<open>np.nansum\<close> replaces every \<^verbatim>\<open>nan\<close> by zero and adds the doubles in an order that numpy
  fixes (a short column from left to right, a long one in blocks, pairwise). The order of
  the additions is a tree whose leaves are the summands; every addition rounds.
\<close>

datatype sumtree = Zero | Val rat | Add sumtree sumtree

fun leaves :: "sumtree \<Rightarrow> rat list" where
  "leaves Zero = []"
| "leaves (Val x) = [x]"
| "leaves (Add l r) = leaves l @ leaves r"

fun tsum :: "sumtree \<Rightarrow> rat" where
  "tsum Zero = 0"
| "tsum (Val x) = x"
| "tsum (Add l r) = round_double (tsum l + tsum r)"

text \<open>
  A way of adding assigns to every list of summands a tree with exactly these leaves. Two
  such ways: from left to right, starting at zero; and the first summand added to the sum
  of the others.
\<close>

definition adds_all :: "(rat list \<Rightarrow> sumtree) \<Rightarrow> bool" where
  "adds_all order = (\<forall>xs. leaves (order xs) = xs)"

definition seq_sum :: "rat list \<Rightarrow> sumtree" where
  "seq_sum xs = foldl (\<lambda>t x. Add t (Val x)) Zero xs"

fun first_plus_rest :: "rat list \<Rightarrow> sumtree" where
  "first_plus_rest [] = Zero"
| "first_plus_rest (x # xs) = Add (Val x) (seq_sum xs)"

text \<open>\<^verbatim>\<open>_safe_rate\<close> and \<^verbatim>\<open>selection_rate\<close> once more, in doubles, for a given way of adding.\<close>

definition safe_rate_dbl :: "(rat list \<Rightarrow> sumtree) \<Rightarrow> cell list \<Rightarrow> cell list \<Rightarrow> pyfloat" where
  "safe_rate_dbl order numer denom =
     (case astype_float numer of
        Inl e \<Rightarrow> NaN
      | Inr ns \<Rightarrow>
          (case astype_float denom of
             Inl e \<Rightarrow> NaN
           | Inr ds \<Rightarrow>
               (let n = tsum (order (map fin_val ns)); d = tsum (order (map fin_val ds))
                in if 0 < d then Fin (round_double (n / d)) else NaN)))"

definition selection_rate_dbl :: "(rat list \<Rightarrow> sumtree) \<Rightarrow> 'k dataframe \<Rightarrow> pyfloat" where
  "selection_rate_dbl order df = safe_rate_dbl order (map outcome df) (ones (length df))"

subsection \<open>Notions used to state the properties\<close>

text \<open>The contribution of a cell to the numerator when every missing value counts as zero.\<close>

fun cell_val :: "cell \<Rightarrow> rat" where
  "cell_val (Num x) = x"
| "cell_val NA = 0"
| "cell_val NonNumeric = 0"

fun is_num :: "cell \<Rightarrow> bool" where
  "is_num (Num x) = True"
| "is_num NA = False"
| "is_num NonNumeric = False"

text \<open>The order of the group labels: ascending, the missing label after every other.\<close>

fun key_less :: "('k::linorder) gkey \<Rightarrow> 'k gkey \<Rightarrow> bool" where
  "key_less (Key a) (Key b) = (a < b)"
| "key_less (Key a) KeyNaN = True"
| "key_less KeyNaN k = False"

text \<open>
  The display order of rates: \<open>rate_ge a b\<close> says that a row of rate \<open>a\<close> may stand before a
  row of rate \<open>b\<close>; an undefined rate is below every defined one.
\<close>

fun rate_ge :: "pyfloat \<Rightarrow> pyfloat \<Rightarrow> bool" where
  "rate_ge a NaN = True"
| "rate_ge NaN (Fin y) = False"
| "rate_ge (Fin x) (Fin y) = (y \<le> x)"

text \<open>Encounter order: the position at which a label first occurs in a column.\<close>

fun first_index :: "'a list \<Rightarrow> 'a \<Rightarrow> nat" where
  "first_index [] k = 0"
| "first_index (x # xs) k = (if x = k then 0 else Suc (first_index xs k))"

text \<open>The row that \<open>group_rates\<close> builds for a label, before sorting.\<close>

definition group_row :: "'k dataframe \<Rightarrow> 'k gkey \<Rightarrow> 'k grouprate" where
  "group_row df k =
     \<lparr>gr_group = k, gr_rate = selection_rate (group_frame df k),
      gr_n = Some (length (group_frame df k))\<rparr>"

text \<open>Reading a decimal back.\<close>

definition is_digit :: "char \<Rightarrow> bool" where
  "is_digit c = (c \<in> set ''0123456789'')"

definition digit_val :: "char \<Rightarrow> nat" where
  "digit_val c = length (takeWhile (\<lambda>d. d \<noteq> c) ''0123456789'')"

definition nat_of_digits :: "string \<Rightarrow> nat" where
  "nat_of_digits s = foldl (\<lambda>a c. 10 * a + digit_val c) 0 s"

text \<open>
  The example of the specification: ten rows, six with gender \<^verbatim>\<open>F\<close> and four with
  \<^verbatim>\<open>M\<close>; \<^verbatim>\<open>qualified\<close> is 1 in three \<^verbatim>\<open>F\<close> rows and in one \<^verbatim>\<open>M\<close> row.
\<close>

definition example_frame :: "string dataframe" where
  "example_frame =
     [\<lparr>grp = Key ''F'', outcome = Num 1\<rparr>, \<lparr>grp = Key ''F'', outcome = Num 1\<rparr>,
      \<lparr>grp = Key ''F'', outcome = Num 1\<rparr>, \<lparr>grp = Key ''F'', outcome = Num 0\<rparr>,
      \<lparr>grp = Key ''F'', outcome = Num 0\<rparr>, \<lparr>grp = Key ''F'', outcome = Num 0\<rparr>,
      \<lparr>grp = Key ''M'', outcome = Num 1\<rparr>, \<lparr>grp = Key ''M'', outcome = Num 0\<rparr>,
      \<lparr>grp = Key ''M'', outcome = Num 0\<rparr>, \<lparr>grp = Key ''M'', outcome = Num 0\<rparr>]"

text \<open>
  Two groups of equal rate, met in descending label order, a group whose outcome cannot be
  coerced, and a row without label.
\<close>

definition tie_frame :: "string dataframe" where
  "tie_frame =
     [\<lparr>grp = Key ''M'', outcome = Num 1\<rparr>, \<lparr>grp = Key ''Z'', outcome = NonNumeric\<rparr>,
      \<lparr>grp = Key ''F'', outcome = Num 1\<rparr>, \<lparr>grp = KeyNaN, outcome = NA\<rparr>]"

text \<open>An outcome that is missing, rejected by the coercion, or a count: a natural number.\<close>

fun count_cell :: "cell \<Rightarrow> bool" where
  "count_cell (Num x) = (0 \<le> x \<and> of_int \<lfloor>x\<rfloor> = x)"
| "count_cell NA = True"
| "count_cell NonNumeric = True"

text \<open>Three rows whose outcomes are the doubles written 0.1, 0.2 and 0.3.\<close>

definition fraction_frame :: "string dataframe" where
  "fraction_frame =
     [\<lparr>grp = Key ''F'', outcome = Num (round_double (1 / 10))\<rparr>,
      \<lparr>grp = Key ''F'', outcome = Num (round_double (2 / 10))\<rparr>,
      \<lparr>grp = Key ''F'', outcome = Num (round_double (3 / 10))\<rparr>]"

text \<open>A cell that is not a negative number.\<close>

fun nonneg_cell :: "cell \<Rightarrow> bool" where
  "nonneg_cell (Num x) = (0 \<le> x)"
| "nonneg_cell NA = True"
| "nonneg_cell NonNumeric = True"

text \<open>
  The claim's tie rule, in its words: rows of equal rate stand in the order in which their
  groups are first met in the frame.
\<close>

definition encounter_ties :: "'k dataframe \<Rightarrow> 'k grouprate list \<Rightarrow> bool" where
  "encounter_ties df rows =
     sorted_wrt (\<lambda>a b. gr_rate a = gr_rate b \<longrightarrow>
          first_index (map grp df) (gr_group a) < first_index (map grp df) (gr_group b)) rows"

text \<open>The table a call returned; no rows when it raised.\<close>

fun table_of :: "error + 'a list \<Rightarrow> 'a list" where
  "table_of (Inl e) = []"
| "table_of (Inr rows) = rows"

text \<open>Two groups of equal rate, met in the one order and in the other.\<close>

definition ab_frame :: "string dataframe" where
  "ab_frame = [\<lparr>grp = Key ''A'', outcome = Num 1\<rparr>, \<lparr>grp = Key ''B'', outcome = Num 1\<rparr>]"

definition ba_frame :: "string dataframe" where
  "ba_frame = [\<lparr>grp = Key ''B'', outcome = Num 1\<rparr>, \<lparr>grp = Key ''A'', outcome = Num 1\<rparr>]"

text \<open>Four groups with four different rates, one of them undefined, and a row without label.\<close>

definition mixed_frame :: "string dataframe" where
  "mixed_frame =
     [\<lparr>grp = Key ''M'', outcome = Num 1\<rparr>, \<lparr>grp = Key ''Z'', outcome = NonNumeric\<rparr>,
      \<lparr>grp = Key ''M'', outcome = Num 0\<rparr>, \<lparr>grp = Key ''F'', outcome = Num 1\<rparr>,
      \<lparr>grp = KeyNaN, outcome = NA\<rparr>]"

lemmas eval_defs =
  selection_rate_def safe_rate_def ones_def nansum_def
  group_rates_def groupby_apply_rate_def group_keys_def labels_def group_frame_def
  value_counts_def merge_left_def sort_values_desc_def
  disparity_table_def ref_lookup_def usable_def Let_def

section \<open>Auxiliary facts\<close>

subsection \<open>The selection rate in closed form\<close>

lemma astype_float_err: "NonNumeric \<in> set cs \<Longrightarrow> astype_float cs = Inl ValueError"
proof (induction cs)
  case Nil
  then show ?case by simp
next
  case (Cons c cs)
  then show ?case by (cases c) (auto split: sum.splits)
qed

lemma astype_float_ok:
  "NonNumeric \<notin> set cs \<Longrightarrow> \<exists>vs. astype_float cs = Inr vs \<and> nansum vs = sum_list (map cell_val cs)"
proof (induction cs)
  case Nil
  then show ?case by (simp add: nansum_def)
next
  case (Cons c cs)
  then obtain vs where "astype_float cs = Inr vs" "nansum vs = sum_list (map cell_val cs)"
    by auto
  with Cons.prems show ?case by (cases c) (auto simp: nansum_def)
qed

lemma astype_float_ones: "astype_float (ones m) = Inr (replicate m (Fin 1))"
  by (induction m) (simp_all add: ones_def)

lemma nansum_replicate_one: "nansum (replicate m (Fin 1)) = of_nat m"
  by (induction m) (simp_all add: nansum_def)

lemma selection_rate_eq:
  "selection_rate df =
     (if df = [] \<or> NonNumeric \<in> set (map outcome df) then NaN
      else Fin (sum_list (map (\<lambda>r. cell_val (outcome r)) df) / of_nat (length df)))"
proof (cases "NonNumeric \<in> set (map outcome df)")
  case True
  then show ?thesis
    by (simp add: selection_rate_def safe_rate_def astype_float_err)
next
  case False
  then obtain vs where vs: "astype_float (map outcome df) = Inr vs"
    "nansum vs = sum_list (map cell_val (map outcome df))"
    using astype_float_ok by blast
  have "map cell_val (map outcome df) = map (\<lambda>r. cell_val (outcome r)) df" by simp
  with vs False show ?thesis
    by (simp add: selection_rate_def safe_rate_def astype_float_ones nansum_replicate_one comp_def)
qed

lemma sum_cell_val_bounds:
  "\<forall>r\<in>set df. outcome r \<in> {Num 0, Num 1, NA} \<Longrightarrow>
   0 \<le> sum_list (map (\<lambda>r. cell_val (outcome r)) df) \<and>
   sum_list (map (\<lambda>r. cell_val (outcome r)) df) \<le> of_nat (length df)"
  by (induction df) auto

lemma selection_rate_mset:
  assumes "mset df' = mset df"
  shows "selection_rate df' = selection_rate df"
proof -
  have s: "set df' = set df" using assms by (rule mset_eq_setD)
  have l: "length df' = length df" using assms by (rule mset_eq_length)
  have "sum_mset (image_mset (\<lambda>r. cell_val (outcome r)) (mset df'))
      = sum_mset (image_mset (\<lambda>r. cell_val (outcome r)) (mset df))"
    using assms by simp
  then have "sum_list (map (\<lambda>r. cell_val (outcome r)) df') = sum_list (map (\<lambda>r. cell_val (outcome r)) df)"
    by (simp only: sum_mset_sum_list [symmetric] mset_map)
  moreover have "(df' = []) = (df = [])" using l by auto
  ultimately show ?thesis using s l
    by (simp add: selection_rate_eq)
qed

lemma cell_val_to_numeric: "cell_val (to_numeric c) = cell_val c"
  by (cases c) simp_all

lemma to_numeric_coercible: "to_numeric c \<noteq> NonNumeric" "NonNumeric \<noteq> to_numeric c"
  by (cases c; simp)+

lemma selection_rate_coerced:
  assumes "df \<noteq> []"
  shows "selection_rate (coerce_outcomes df) =
           Fin (sum_list (map (\<lambda>r. cell_val (outcome r)) df) / of_nat (length df))"
proof -
  have "NonNumeric \<notin> set (map outcome (coerce_outcomes df))"
    by (auto simp: coerce_outcomes_def to_numeric_coercible)
  moreover have "map (\<lambda>r. cell_val (outcome r)) (coerce_outcomes df) = map (\<lambda>r. cell_val (outcome r)) df"
    by (simp add: coerce_outcomes_def comp_def cell_val_to_numeric)
  moreover have "length (coerce_outcomes df) = length df" "coerce_outcomes df \<noteq> []"
    using assms by (simp_all add: coerce_outcomes_def)
  ultimately show ?thesis
    by (simp only: selection_rate_eq) simp
qed

lemma all_missing_rate:
  assumes "df \<noteq> []" and "\<forall>r\<in>set df. outcome r = NA"
  shows "selection_rate df = Fin 0"
proof -
  have "NonNumeric \<notin> set (map outcome df)" using assms(2) by auto
  moreover have "sum_list (map (\<lambda>r. cell_val (outcome r)) df) = 0"
    using assms(2) by (induction df) simp_all
  ultimately show ?thesis using assms(1) by (simp add: selection_rate_eq)
qed

subsection \<open>Groups\<close>

lemma set_labels: "set (labels ks) = {a. Key a \<in> set ks}"
  by (induction ks) (auto simp: labels_def split: gkey.splits)

lemma group_keys_alt:
  "group_keys df = map Key (sort (remdups (labels (map grp df))))
                   @ (if KeyNaN \<in> set (map grp df) then [KeyNaN] else [])"
  by (simp add: group_keys_def labels_def Let_def)

lemma set_group_keys: "set (group_keys df) = set (map grp df)"
proof -
  have "\<And>k. k \<in> set (group_keys df) \<longleftrightarrow> k \<in> set (map grp df)"
  proof -
    fix k show "k \<in> set (group_keys df) \<longleftrightarrow> k \<in> set (map grp df)"
      by (cases k) (auto simp: group_keys_alt set_labels)
  qed
  then show ?thesis by blast
qed

lemma sorted_group_keys: "sorted_wrt key_less (group_keys df)"
proof -
  let ?xs = "sort (remdups (labels (map grp df)))"
  have "sorted_wrt (<) ?xs" by (simp add: strict_sorted_iff)
  then have "sorted_wrt key_less (map Key ?xs)" by (simp add: sorted_wrt_map)
  then show ?thesis by (auto simp: group_keys_alt sorted_wrt_append)
qed

lemma key_less_irrefl: "\<not> key_less k k"
  by (cases k) simp_all

lemma sorted_key_less_distinct: "sorted_wrt key_less ks \<Longrightarrow> distinct ks"
  by (induction ks) (auto simp: key_less_irrefl)

lemma distinct_group_keys: "distinct (group_keys df)"
  using sorted_group_keys by (rule sorted_key_less_distinct)

lemma map_of_value_counts:
  "k \<in> set (map grp df) \<Longrightarrow> map_of (value_counts df) k = Some (length (group_frame df k))"
  by (simp add: value_counts_def map_of_map_restrict)

lemma merge_left_group_keys:
  "merge_left (map (\<lambda>k. (k, selection_rate (group_frame df k))) (group_keys df)) (value_counts df)
   = map (group_row df) (group_keys df)"
proof -
  have "\<forall>k\<in>set (group_keys df). map_of (value_counts df) k = Some (length (group_frame df k))"
    using map_of_value_counts set_group_keys by blast
  then show ?thesis
    by (simp add: merge_left_def group_row_def)
qed

lemma group_rates_eq:
  "group_rates df =
     (if df = [] then Inl TypeError
      else Inr (sort_values_desc (map (group_row df) (group_keys df))))"
  by (simp add: group_rates_def groupby_apply_rate_def merge_left_group_keys)

lemma mset_sort_values_desc: "mset (sort_values_desc rows) = mset rows"
  by (simp add: sort_values_desc_def)

lemma sum_indicator_absent:
  "x \<notin> set ks \<Longrightarrow> (\<Sum>k\<leftarrow>ks. if x = k then 1 else 0) = (0::nat)"
  by (induction ks) auto

lemma sum_indicator_distinct:
  "distinct ks \<Longrightarrow> x \<in> set ks \<Longrightarrow> (\<Sum>k\<leftarrow>ks. if x = k then 1 else 0) = (1::nat)"
  by (induction ks) (auto simp: sum_indicator_absent)

lemma sum_length_groups:
  assumes "distinct ks" and "set (map grp df) \<subseteq> set ks"
  shows "(\<Sum>k\<leftarrow>ks. length (group_frame df k)) = length df"
  using assms(2)
proof (induction df)
  case Nil
  then show ?case by (simp add: group_frame_def)
next
  case (Cons r df)
  have "(\<Sum>k\<leftarrow>ks. length (group_frame (r # df) k))
      = (\<Sum>k\<leftarrow>ks. (if grp r = k then 1 else 0) + length (group_frame df k))"
    by (rule arg_cong [where f = sum_list]) (simp add: group_frame_def)
  also have "\<dots> = (\<Sum>k\<leftarrow>ks. if grp r = k then 1 else 0) + (\<Sum>k\<leftarrow>ks. length (group_frame df k))"
    by (simp add: sum_list_addf)
  also have "(\<Sum>k\<leftarrow>ks. if grp r = k then 1 else 0) = (1::nat)"
    using assms(1) Cons.prems by (simp add: sum_indicator_distinct subset_iff)
  finally show ?case using Cons by simp
qed

lemma group_rates_total: "df \<noteq> [] \<Longrightarrow> \<exists>rows. group_rates df = Inr rows"
  by (simp add: group_rates_eq)

lemma group_rates_InrD:
  "group_rates df = Inr rows \<Longrightarrow>
   df \<noteq> [] \<and> rows = sort_values_desc (map (group_row df) (group_keys df))"
  by (auto simp: group_rates_eq split: if_splits)

lemma sum_list_sort_values_desc:
  "sum_list (map f (sort_values_desc rows)) = sum_list (map (f :: 'a grouprate \<Rightarrow> nat) rows)"
proof -
  have "sum_mset (image_mset f (mset (sort_values_desc rows))) = sum_mset (image_mset f (mset rows))"
    by (simp only: mset_sort_values_desc)
  then show ?thesis
    by (simp only: sum_mset_sum_list [symmetric] mset_map)
qed

subsection \<open>Sorting\<close>

lemma sort_values_desc_rate_order:
  "sorted_wrt (\<lambda>a b. rate_ge (gr_rate a) (gr_rate b)) (sort_values_desc rows)"
proof -
  let ?f = "\<lambda>r::'a grouprate. - fin_val (gr_rate r)"
  let ?A = "sort_key ?f (filter (\<lambda>r. \<not> isnan (gr_rate r)) rows)"
  let ?B = "filter (\<lambda>r. isnan (gr_rate r)) rows"
  have "sorted (map ?f ?A)" by (rule sorted_sort_key)
  then have "sorted_wrt (\<lambda>a b. ?f a \<le> ?f b) ?A" by (simp only: sorted_wrt_map)
  moreover have "\<And>a b. a \<in> set ?A \<Longrightarrow> b \<in> set ?A \<Longrightarrow> ?f a \<le> ?f b \<Longrightarrow> rate_ge (gr_rate a) (gr_rate b)"
  proof -
    fix a b assume "a \<in> set ?A" "b \<in> set ?A" "?f a \<le> ?f b"
    then show "rate_ge (gr_rate a) (gr_rate b)"
      by (cases "gr_rate a"; cases "gr_rate b") simp_all
  qed
  ultimately have A: "sorted_wrt (\<lambda>a b. rate_ge (gr_rate a) (gr_rate b)) ?A"
    by (rule sorted_wrt_mono_rel [rotated])
  have nanB: "\<forall>b\<in>set ?B. gr_rate b = NaN"
  proof
    fix b assume "b \<in> set ?B" then show "gr_rate b = NaN" by (cases "gr_rate b") simp_all
  qed
  have nan_last: "rate_ge (gr_rate a) (gr_rate b)" if "b \<in> set ?B" for a b :: "'a grouprate"
  proof -
    from that nanB have "gr_rate b = NaN" by blast
    then show ?thesis by simp
  qed
  have "sorted_wrt (\<lambda>a b. True) ?B" by simp
  then have B: "sorted_wrt (\<lambda>a b. rate_ge (gr_rate a) (gr_rate b)) ?B"
    by (rule sorted_wrt_mono_rel [rotated]) (rule nan_last)
  have "\<forall>a\<in>set ?A. \<forall>b\<in>set ?B. rate_ge (gr_rate a) (gr_rate b)"
    using nan_last by blast
  with A B show ?thesis
    unfolding sort_values_desc_def sorted_wrt_append by blast
qed

subsection \<open>The disparity table\<close>

lemma label_eq_SomeD: "label_eq k (Some k') \<Longrightarrow> k = k'"
  by (cases k; cases k') simp_all

lemma fl_sub_NaN: "fl_sub a NaN = NaN"
  by (cases a) simp_all

lemma ref_lookup_absent:
  assumes "kref \<notin> set (map gr_group rates)"
  shows "ref_lookup rates (Some kref) = Inl IndexError"
proof -
  have "filter (\<lambda>r. label_eq (gr_group r) (Some kref)) rates = []"
    using assms by (auto simp: filter_empty_conv dest: label_eq_SomeD)
  then show ?thesis by (simp add: ref_lookup_def)
qed

lemma group_rates_nonempty:
  assumes "group_rates df = Inr rates"
  shows "rates \<noteq> []" and "distinct (map gr_group rates)"
proof -
  from assms have ne: "df \<noteq> []" and
    rates: "rates = sort_values_desc (map (group_row df) (group_keys df))"
    using group_rates_InrD by blast+
  have m: "mset rates = mset (map (group_row df) (group_keys df))"
    unfolding rates by (rule mset_sort_values_desc)
  have "group_keys df \<noteq> []"
    using ne set_group_keys [of df] by (cases df) auto
  with m show "rates \<noteq> []" by auto
  have "mset (map gr_group rates) = mset (map gr_group (map (group_row df) (group_keys df)))"
    using m by (metis mset_map)
  also have "map gr_group (map (group_row df) (group_keys df)) = group_keys df"
    by (simp add: comp_def group_row_def)
  finally have "mset (map gr_group rates) = mset (group_keys df)" .
  then show "distinct (map gr_group rates)"
    using distinct_group_keys [of df] by (metis mset_eq_imp_distinct_iff)
qed

lemma rate_ge_refl: "rate_ge a a"
  by (cases a) simp_all

lemma ref_lookup_hd:
  assumes "rates \<noteq> []" and "gr_group (hd rates) = Key k"
  shows "ref_lookup rates (Some (Key k)) = Inr (gr_rate (hd rates))"
  using assms by (cases rates) (simp_all add: ref_lookup_def)

lemma all_missing_group_rates:
  assumes "group_rates df = Inr rates" and "\<forall>r\<in>set df. outcome r = NA"
  shows "\<forall>g\<in>set rates. gr_rate g = Fin 0"
proof
  fix g assume "g \<in> set rates"
  then have "g \<in> set (map (group_row df) (group_keys df))"
    using assms(1) group_rates_InrD mset_sort_values_desc mset_eq_setD by blast
  then obtain k where k: "k \<in> set (group_keys df)" and g: "g = group_row df k" by auto
  from k have "k \<in> set (map grp df)" by (simp only: set_group_keys)
  then have "group_frame df k \<noteq> []"
    by (auto simp: group_frame_def filter_empty_conv)
  moreover have "\<forall>r\<in>set (group_frame df k). outcome r = NA"
    using assms(2) by (simp add: group_frame_def)
  ultimately have "selection_rate (group_frame df k) = Fin 0" by (rule all_missing_rate)
  then show "gr_rate g = Fin 0" by (simp add: g group_row_def)
qed


text \<open>
  On a frame without rows \<open>group_rates\<close> raises, and \<open>disparity_table\<close>, which calls it
  outside its \<^verbatim>\<open>try\<close>, raises with it.
\<close>

lemma empty_frame_raises:
  "group_rates [] = Inl TypeError \<and> disparity_table [] reference = Inl TypeError"
  by (simp add: group_rates_def groupby_apply_rate_def disparity_table_def)

text \<open>
  A reference that labels no row of a frame with rows: the lookup fails, the overall rate
  stands in for the reference rate, and both ratio columns are the rate over the overall
  rate, undefined where the overall rate is undefined or not positive.
\<close>

lemma reference_absent_falls_back:
  assumes "df \<noteq> []" and "kref \<notin> set (map grp df)"
  shows "\<exists>rates. group_rates df = Inr rates \<and>
           disparity_table df (Some kref) =
             Inr (map (\<lambda>r.
               \<lparr>d_group = gr_group r, d_rate = gr_rate r, d_n = gr_n r,
                rate_diff_vs_overall = fl_sub (gr_rate r) (selection_rate df),
                risk_ratio_vs_overall =
                  (case selection_rate df of
                     Fin v \<Rightarrow> (if 0 < v then (case gr_rate r of Fin x \<Rightarrow> Fin (x / v) | NaN \<Rightarrow> NaN) else NaN)
                   | NaN \<Rightarrow> NaN),
                rate_vs_ref =
                  (case selection_rate df of
                     Fin v \<Rightarrow> (if 0 < v then (case gr_rate r of Fin x \<Rightarrow> Fin (x / v) | NaN \<Rightarrow> NaN) else NaN)
                   | NaN \<Rightarrow> NaN),
                reference_group = Some kref\<rparr>) rates)"
proof -
  from assms(1) obtain rates where rates: "group_rates df = Inr rates"
    using group_rates_total by blast
  then have "set rates = set (map (group_row df) (group_keys df))"
    using group_rates_InrD mset_sort_values_desc mset_eq_setD by blast
  then have "set (map gr_group rates) = gr_group ` group_row df ` set (group_keys df)" by simp
  also have "\<dots> = set (group_keys df)" by (simp add: image_image group_row_def)
  finally have "set (map gr_group rates) = set (map grp df)" by (simp only: set_group_keys)
  with assms(2) have "kref \<notin> set (map gr_group rates)" by simp
  then have look: "ref_lookup rates (Some kref) = Inl IndexError" by (rule ref_lookup_absent)
  have ratio: "(if usable ov then fl_div r ov else NaN) =
      (case ov of Fin v \<Rightarrow> (if 0 < v then (case r of Fin x \<Rightarrow> Fin (x / v) | NaN \<Rightarrow> NaN) else NaN)
       | NaN \<Rightarrow> NaN)" for ov r
    by (cases ov; cases r) (auto simp: usable_def)
  have "disparity_table df (Some kref) = Inr (map (\<lambda>r.
               \<lparr>d_group = gr_group r, d_rate = gr_rate r, d_n = gr_n r,
                rate_diff_vs_overall = fl_sub (gr_rate r) (selection_rate df),
                risk_ratio_vs_overall =
                  (case selection_rate df of
                     Fin v \<Rightarrow> (if 0 < v then (case gr_rate r of Fin x \<Rightarrow> Fin (x / v) | NaN \<Rightarrow> NaN) else NaN)
                   | NaN \<Rightarrow> NaN),
                rate_vs_ref =
                  (case selection_rate df of
                     Fin v \<Rightarrow> (if 0 < v then (case gr_rate r of Fin x \<Rightarrow> Fin (x / v) | NaN \<Rightarrow> NaN) else NaN)
                   | NaN \<Rightarrow> NaN),
                reference_group = Some kref\<rparr>) rates)"
    by (simp only: disparity_table_def rates look Let_def sum.case ratio option.distinct simp_thms if_False)
  with rates show ?thesis by blast
qed

subsection \<open>Row order does not matter\<close>

lemma group_keys_mset:
  assumes "mset df' = mset df"
  shows "group_keys df' = group_keys df"
proof -
  have "set df' = set df" using assms by (rule mset_eq_setD)
  then have s: "set (map grp df') = set (map grp df)" by simp
  then have "set (labels (map grp df')) = set (labels (map grp df))"
    by (simp only: set_labels)
  then have "sort (remdups (labels (map grp df'))) = sort (remdups (labels (map grp df)))"
    by (intro sorted_distinct_set_unique) simp_all
  with s show ?thesis by (simp only: group_keys_alt)
qed

lemma group_row_mset:
  assumes "mset df' = mset df"
  shows "group_row df' k = group_row df k"
proof -
  have m: "mset (group_frame df' k) = mset (group_frame df k)"
    unfolding group_frame_def mset_filter assms ..
  then have "selection_rate (group_frame df' k) = selection_rate (group_frame df k)"
    by (rule selection_rate_mset)
  moreover have "length (group_frame df' k) = length (group_frame df k)"
    using m by (rule mset_eq_length)
  ultimately show ?thesis by (simp add: group_row_def)
qed

lemma group_rates_mset:
  assumes "mset df' = mset df"
  shows "group_rates df' = group_rates df"
proof -
  have "length df' = length df" using assms by (rule mset_eq_length)
  then have "(df' = []) = (df = [])" by auto
  moreover have "group_row df' = group_row df"
    by (rule ext) (rule group_row_mset [OF assms])
  ultimately show ?thesis
    by (simp add: group_rates_eq group_keys_mset [OF assms])
qed

lemma disparity_table_mset:
  assumes "mset df' = mset df"
  shows "disparity_table df' reference = disparity_table df reference"
  unfolding disparity_table_def group_rates_mset [OF assms] selection_rate_mset [OF assms] ..

subsection \<open>The example frame, evaluated\<close>

lemma example_selection_rate: "selection_rate example_frame = Fin (2 / 5)"
  by (simp add: example_frame_def eval_defs)

lemma example_group_rates:
  "group_rates example_frame =
     Inr [\<lparr>gr_group = Key ''F'', gr_rate = Fin (1 / 2), gr_n = Some 6\<rparr>,
          \<lparr>gr_group = Key ''M'', gr_rate = Fin (1 / 4), gr_n = Some 4\<rparr>]"
  by (simp add: example_frame_def eval_defs)

lemma example_disparity_table:
  "disparity_table example_frame (Some (Key ''F'')) =
     Inr [\<lparr>d_group = Key ''F'', d_rate = Fin (1 / 2), d_n = Some 6,
           rate_diff_vs_overall = Fin (1 / 10), risk_ratio_vs_overall = Fin (5 / 4),
           rate_vs_ref = Fin 1, reference_group = Some (Key ''F'')\<rparr>,
          \<lparr>d_group = Key ''M'', d_rate = Fin (1 / 4), d_n = Some 4,
           rate_diff_vs_overall = Fin (- (3 / 20)), risk_ratio_vs_overall = Fin (5 / 8),
           rate_vs_ref = Fin (1 / 2), reference_group = Some (Key ''F'')\<rparr>]"
  by (simp add: disparity_table_def example_group_rates example_selection_rate ref_lookup_def
        usable_def Let_def)

subsection \<open>Decimal rendering\<close>

lemma digit_char_props:
  assumes "d < 10"
  shows "is_digit (digit_char d)" and "digit_val (digit_char d) = d"
proof -
  from assms have "d \<in> {0, 1, 2, 3, 4, 5, 6, 7, 8, 9}" by auto
  then show "is_digit (digit_char d)" 
    by (auto simp: digit_char_def is_digit_def)
  from \<open>d \<in> {0, 1, 2, 3, 4, 5, 6, 7, 8, 9}\<close> show "digit_val (digit_char d) = d"
    by (auto simp: digit_char_def digit_val_def)
qed

lemma nat_of_digits_snoc: "nat_of_digits (s @ [c]) = 10 * nat_of_digits s + digit_val c"
  by (simp add: nat_of_digits_def)

lemma string_of_nat_props:
  "string_of_nat m \<noteq> [] \<and> list_all is_digit (string_of_nat m) \<and> nat_of_digits (string_of_nat m) = m"
proof (induction m rule: string_of_nat.induct)
  case (1 m)
  show ?case
  proof (cases "m < 10")
    case True
    then show ?thesis
      by (simp add: string_of_nat.simps [of m] digit_char_props nat_of_digits_def)
  next
    case False
    have "m mod 10 < 10" by simp
    with False 1 show ?thesis
      by (simp add: string_of_nat.simps [of m] digit_char_props nat_of_digits_snoc)
  qed
qed

lemma round_half_even_bound: "\<bar>of_int (round_half_even q) - q\<bar> \<le> 1 / 2"
proof -
  have "of_int \<lfloor>q\<rfloor> \<le> q" "q < of_int \<lfloor>q\<rfloor> + 1" by linarith+
  then show ?thesis
    by (auto simp: round_half_even_def Let_def)
qed

lemma value_of_digits:
  fixes a :: nat
  shows "(of_nat (a div 10) :: rat) + of_nat (a mod 10) / 10 = of_nat a / 10"
proof -
  have "(of_nat (10 * (a div 10) + a mod 10) :: rat) = of_nat a"
    by (simp only: mult_div_mod_eq)
  then have "10 * (of_nat (a div 10) :: rat) + of_nat (a mod 10) = of_nat a"
    by (simp only: of_nat_add of_nat_mult of_nat_numeral)
  then have "(of_nat a :: rat) / 10 = (10 * of_nat (a div 10) + of_nat (a mod 10)) / 10"
    by (rule arg_cong [OF sym])
  also have "\<dots> = of_nat (a div 10) + of_nat (a mod 10) / 10"
    by (simp add: add_divide_distrib)
  finally show ?thesis by (rule sym)
qed

lemma abs_tenth_bound:
  fixes u y :: rat
  assumes "\<bar>u - y * 10\<bar> \<le> 1 / 2"
  shows "\<bar>\<bar>u\<bar> / 10 - \<bar>y\<bar>\<bar> \<le> 1 / 20"
  using assms by linarith

subsection \<open>Rounding to double precision\<close>

lemma pow2_suc: "(2::rat) powi (e + 1) = 2 * 2 powi e"
  by (simp add: power_int_add_1')

lemma pow2_pos: "0 < (2::rat) powi e"
  by simp

lemma pow2_mono: "e \<le> e' \<Longrightarrow> (2::rat) powi e \<le> 2 powi e'"
  by (rule power_int_increasing) simp_all

lemma norm_down_finds:
  assumes "2 ^ 52 * 2 powi e \<le> a" and "a < 2 ^ 53 * 2 powi e"
  shows "e \<le> e0 \<Longrightarrow> e0 \<le> e + int k \<Longrightarrow> norm_down k a e0 = e"
proof (induction k arbitrary: e0)
  case 0
  then show ?case by simp
next
  case (Suc k)
  show ?case
  proof (cases "e0 = e")
    case True
    with assms(1) show ?thesis by simp
  next
    case False
    with Suc.prems have lt: "e + 1 \<le> e0" by simp
    have "a < 2 ^ 52 * (2 * 2 powi e)" using assms(2) by simp
    also have "\<dots> = 2 ^ 52 * 2 powi (e + 1)" by (simp only: pow2_suc)
    also have "\<dots> \<le> 2 ^ 52 * 2 powi e0" using pow2_mono [OF lt] by simp
    finally have "a < 2 ^ 52 * 2 powi e0" .
    moreover have "norm_down k a (e0 - 1) = e"
      using Suc.prems lt by (intro Suc.IH) simp_all
    ultimately show ?thesis by simp
  qed
qed

lemma norm_up_finds:
  assumes "2 ^ 52 * 2 powi e \<le> a" and "a < 2 ^ 53 * 2 powi e"
  shows "e0 \<le> e \<Longrightarrow> e \<le> e0 + int k \<Longrightarrow> norm_up k a e0 = e"
proof (induction k arbitrary: e0)
  case 0
  then show ?case by simp
next
  case (Suc k)
  show ?case
  proof (cases "e0 = e")
    case True
    with assms(2) show ?thesis by simp
  next
    case False
    with Suc.prems have lt: "e0 + 1 \<le> e" by simp
    have "(2::rat) ^ 53 * 2 powi e0 = 2 ^ 52 * (2 * 2 powi e0)" by simp
    also have "\<dots> = 2 ^ 52 * 2 powi (e0 + 1)" by (simp only: pow2_suc)
    also have "\<dots> \<le> 2 ^ 52 * 2 powi e" using pow2_mono [OF lt] by simp
    also have "\<dots> \<le> a" by (rule assms(1))
    finally have "2 ^ 53 * 2 powi e0 \<le> a" .
    moreover have "norm_up k a (e0 + 1) = e"
      using Suc.prems lt by (intro Suc.IH) simp_all
    ultimately show ?thesis by simp
  qed
qed

lemma dexp_eq:
  assumes lo: "2 ^ 52 * 2 powi e \<le> a" and hi: "a < 2 ^ 53 * 2 powi e"
    and "- 1074 \<le> e" and "e \<le> 971"
  shows "dexp a = e"
proof (cases "2 ^ 53 \<le> a")
  case True
  have "0 \<le> e"
  proof (rule ccontr)
    assume "\<not> 0 \<le> e"
    then have "e \<le> 0" by simp
    from pow2_mono [OF this] have "(2::rat) powi e \<le> 1" by simp
    then have "(2::rat) ^ 53 * 2 powi e \<le> 2 ^ 53 * 1"
      by (intro mult_left_mono) simp_all
    with hi have "a < 2 ^ 53" by linarith
    with True show False by linarith
  qed
  with assms have "norm_up 971 a 0 = e"
    by (intro norm_up_finds [OF lo hi]) simp_all
  with True show ?thesis by (simp only: dexp_def if_True)
next
  case False
  have "e \<le> 0"
  proof (rule ccontr)
    assume "\<not> e \<le> 0"
    then have "1 \<le> e" by simp
    from pow2_mono [OF this] have "(2::rat) \<le> 2 powi e" by simp
    then have "(2::rat) ^ 52 * 2 \<le> 2 ^ 52 * 2 powi e"
      by (intro mult_left_mono) simp_all
    with lo have "(2::rat) ^ 52 * 2 \<le> a" by linarith
    then have "2 ^ 53 \<le> a" by simp
    with False show False by simp
  qed
  with assms have "norm_down 1074 a 0 = e"
    by (intro norm_down_finds [OF lo hi]) simp_all
  with False show ?thesis by (simp only: dexp_def if_False)
qed

lemma round_half_even_nearest:
  assumes "\<bar>q - of_int m\<bar> < 1 / 2 \<or> (\<bar>q - of_int m\<bar> = 1 / 2 \<and> even m)"
  shows "round_half_even q = m"
proof -
  consider (ge) "of_int m \<le> q" "q - of_int m < 1 / 2"
    | (lt) "q < of_int m" "of_int m - q < 1 / 2"
    | (up) "q - of_int m = 1 / 2" "even m"
    | (dn) "of_int m - q = 1 / 2" "even m"
    using assms by (auto simp: abs_if split: if_splits)
  then show ?thesis
  proof cases
    case ge
    then have "\<lfloor>q\<rfloor> = m" by (intro floor_unique) simp_all
    with ge show ?thesis by (simp add: round_half_even_def Let_def)
  next
    case lt
    then have f: "\<lfloor>q\<rfloor> = m - 1" by (intro floor_unique) simp_all
    have "\<not> q - of_int (m - 1) < 1 / 2" "1 / 2 < q - of_int (m - 1)" using lt by simp_all
    with f show ?thesis by (simp add: round_half_even_def Let_def)
  next
    case up
    then have f: "\<lfloor>q\<rfloor> = m" by (intro floor_unique) simp_all
    with up show ?thesis by (simp add: round_half_even_def Let_def)
  next
    case dn
    then have f: "\<lfloor>q\<rfloor> = m - 1" by (intro floor_unique) simp_all
    have d: "q - of_int (m - 1) = 1 / 2" using dn by simp
    have "odd (m - 1)" using dn by simp
    with f d show ?thesis by (simp add: round_half_even_def Let_def)
  qed
qed

lemma round_double_eval:
  assumes lo: "2 ^ 52 * 2 powi e \<le> \<bar>x\<bar>" and hi: "\<bar>x\<bar> < 2 ^ 53 * 2 powi e"
    and e1: "- 1074 \<le> e" and e2: "e \<le> 971"
    and m: "\<bar>x / 2 powi e - of_int m\<bar> < 1 / 2 \<or> (\<bar>x / 2 powi e - of_int m\<bar> = 1 / 2 \<and> even m)"
  shows "round_double x = of_int m * 2 powi e"
proof -
  have "0 < (2::rat) ^ 52 * 2 powi e" by simp
  with lo have "0 < \<bar>x\<bar>" by linarith
  then have "x \<noteq> 0" by simp
  moreover have "dexp \<bar>x\<bar> = e" using lo hi e1 e2 by (rule dexp_eq)
  moreover have "round_half_even (x / 2 powi e) = m" using m by (rule round_half_even_nearest)
  ultimately show ?thesis by (simp add: round_double_def)
qed

lemma norm_down_le: "norm_down k a e0 \<le> e0"
proof (induction k arbitrary: e0)
  case 0
  then show ?case by simp
next
  case (Suc k)
  have "norm_down k a (e0 - 1) \<le> e0 - 1" by (rule Suc.IH)
  then show ?case by simp
qed

lemma round_half_even_of_int: "round_half_even (of_int j) = j"
  by (rule round_half_even_nearest) simp

lemma round_double_nat:
  assumes "m \<le> 2 ^ 53"
  shows "round_double (of_nat m) = of_nat m"
proof (cases "m = 2 ^ 53")
  case True
  have "round_double (2 ^ 53) = of_int (2 ^ 52) * 2 powi 1"
    by (rule round_double_eval) simp_all
  with True show ?thesis by simp
next
  case False
  with assms have lt: "m < 2 ^ 53" by simp
  show ?thesis
  proof (cases "m = 0")
    case True
    then show ?thesis by (simp add: round_double_def)
  next
    case False
    let ?a = "of_nat m :: rat"
    define e where "e = norm_down 1074 ?a 0"
    define n where "n = nat (- e)"
    have "e \<le> 0" unfolding e_def by (rule norm_down_le)
    then have e: "e = - int n" by (simp add: n_def)
    have "\<not> 2 ^ 53 \<le> ?a"
    proof -
      have "?a < of_nat (2 ^ 53)" using lt by (simp only: of_nat_less_iff)
      then show ?thesis by simp
    qed
    then have d: "dexp \<bar>?a\<bar> = e" by (simp add: dexp_def e_def)
    have p: "(2::rat) powi e = 1 / 2 ^ n" by (simp add: e power_int_minus_divide)
    have q: "?a / 2 powi e = of_int (int (m * 2 ^ n))" by (simp add: p)
    have "round_double ?a = of_int (round_half_even (?a / 2 powi e)) * 2 powi e"
      using False d by (simp add: round_double_def)
    also have "\<dots> = of_int (int (m * 2 ^ n)) * 2 powi e"
      by (simp only: q round_half_even_of_int)
    also have "\<dots> = ?a" by (simp add: p)
    finally show ?thesis .
  qed
qed

subsection \<open>Sums of counts are exact in double precision\<close>

lemma count_sum:
  assumes "\<forall>x\<in>set xs. \<exists>m. x = of_nat m"
  shows "\<exists>M. sum_list xs = (of_nat M :: rat)"
  using assms
proof (induction xs)
  case Nil
  have "sum_list [] = (of_nat 0 :: rat)" by simp
  then show ?case by blast
next
  case (Cons x xs)
  then obtain m M where "x = of_nat m" and "sum_list xs = of_nat M" by auto
  then have "sum_list (x # xs) = of_nat (m + M)" by simp
  then show ?case by blast
qed

lemma tsum_exact:
  assumes "\<forall>x\<in>set (leaves t). \<exists>m. x = of_nat m" and "sum_list (leaves t) \<le> 2 ^ 53"
  shows "tsum t = sum_list (leaves t)"
  using assms
proof (induction t)
  case Zero
  then show ?case by simp
next
  case (Val x)
  then show ?case by simp
next
  case (Add l r)
  from Add.prems(1) have cl: "\<forall>x\<in>set (leaves l). \<exists>m. x = of_nat m"
    and cr: "\<forall>x\<in>set (leaves r). \<exists>m. x = of_nat m" by auto
  from count_sum [OF cl] obtain L where L: "sum_list (leaves l) = of_nat L" by blast
  from count_sum [OF cr] obtain R where R: "sum_list (leaves r) = of_nat R" by blast
  from Add.prems(2) have tot: "(of_nat (L + R) :: rat) \<le> 2 ^ 53" by (simp add: L R)
  then have "(of_nat (L + R) :: rat) \<le> of_nat (2 ^ 53)" by simp
  then have le: "L + R \<le> 2 ^ 53" by (simp only: of_nat_le_iff)
  have "sum_list (leaves l) \<le> 2 ^ 53" "sum_list (leaves r) \<le> 2 ^ 53"
    using tot by (simp_all add: L R)
  with Add.IH cl cr have "tsum l = of_nat L" "tsum r = of_nat R" by (simp_all add: L R)
  then have "tsum (Add l r) = round_double (of_nat (L + R))" by simp
  also have "\<dots> = of_nat (L + R)" using le by (rule round_double_nat)
  finally show ?case by (simp add: L R)
qed

lemma leaves_foldl:
  "leaves (foldl (\<lambda>t x. Add t (Val x)) t xs) = leaves t @ xs"
  by (induction xs arbitrary: t) simp_all

lemma adds_all_seq_sum: "adds_all seq_sum"
  by (simp add: adds_all_def seq_sum_def leaves_foldl)

lemma adds_all_first_plus_rest: "adds_all first_plus_rest"
proof -
  have "leaves (first_plus_rest xs) = xs" for xs
    by (cases xs) (simp_all add: seq_sum_def leaves_foldl)
  then show ?thesis by (simp add: adds_all_def)
qed

lemma astype_float_vals:
  "NonNumeric \<notin> set cs \<Longrightarrow> \<exists>vs. astype_float cs = Inr vs \<and> map fin_val vs = map cell_val cs"
proof (induction cs)
  case Nil
  then show ?case by simp
next
  case (Cons c cs)
  then obtain vs where "astype_float cs = Inr vs" "map fin_val vs = map cell_val cs"
    by auto
  with Cons.prems show ?case by (cases c) auto
qed

lemma count_cell_val: "count_cell c \<Longrightarrow> \<exists>m. cell_val c = of_nat m"
proof (cases c)
  case (Num x)
  assume "count_cell c"
  with Num have "0 \<le> x" and x: "of_int \<lfloor>x\<rfloor> = x" by simp_all
  then have "0 \<le> \<lfloor>x\<rfloor>" by simp
  then have "of_int \<lfloor>x\<rfloor> = (of_nat (nat \<lfloor>x\<rfloor>) :: rat)" by simp
  with x Num have "cell_val c = of_nat (nat \<lfloor>x\<rfloor>)" by simp
  then show ?thesis by blast
next
  case NA
  have "cell_val NA = of_nat 0" by simp
  with NA show ?thesis by blast
next
  case NonNumeric
  have "cell_val NonNumeric = of_nat 0" by simp
  with NonNumeric show ?thesis by blast
qed

lemma selection_rate_dbl_exact:
  assumes ord: "adds_all order"
    and cnt: "\<forall>r\<in>set df. count_cell (outcome r)"
    and tot: "sum_list (map (\<lambda>r. cell_val (outcome r)) df) \<le> 2 ^ 53"
    and len: "length df \<le> 2 ^ 53"
  shows "selection_rate_dbl order df =
           (case selection_rate df of Fin q \<Rightarrow> Fin (round_double q) | NaN \<Rightarrow> NaN)"
proof (cases "NonNumeric \<in> set (map outcome df)")
  case True
  then show ?thesis
    by (simp add: selection_rate_dbl_def safe_rate_dbl_def selection_rate_eq astype_float_err)
next
  case False
  then obtain vs where vs: "astype_float (map outcome df) = Inr vs"
    and vals: "map fin_val vs = map cell_val (map outcome df)"
    using astype_float_vals by blast
  let ?xs = "map cell_val (map outcome df)"
  have lx: "leaves (order ?xs) = ?xs" using ord by (simp add: adds_all_def)
  have "\<forall>x\<in>set ?xs. \<exists>m. x = of_nat m" using cnt count_cell_val by auto
  moreover have "sum_list ?xs \<le> 2 ^ 53" using tot by (simp add: comp_def)
  ultimately have n: "tsum (order ?xs) = sum_list ?xs"
    using tsum_exact [of "order ?xs"] by (simp only: lx)
  let ?os = "replicate (length df) (1::rat)"
  have lo: "leaves (order ?os) = ?os" using ord by (simp add: adds_all_def)
  have so: "sum_list ?os = of_nat (length df)" by (simp add: sum_list_replicate)
  have "\<forall>x\<in>set ?os. \<exists>m. x = of_nat m"
  proof
    fix x assume "x \<in> set ?os"
    then have "x = of_nat 1" by simp
    then show "\<exists>m. x = of_nat m" by blast
  qed
  moreover have "sum_list ?os \<le> 2 ^ 53"
  proof -
    have "(of_nat (length df) :: rat) \<le> of_nat (2 ^ 53)" using len by (simp only: of_nat_le_iff)
    then show ?thesis by (simp add: so)
  qed
  ultimately have d: "tsum (order ?os) = of_nat (length df)"
    using tsum_exact [of "order ?os"] by (simp only: lo so)
  have fo: "map fin_val (replicate (length df) (Fin 1)) = ?os" by simp
  have n': "tsum (order (map (\<lambda>r. cell_val (outcome r)) df)) =
              sum_list (map (\<lambda>r. cell_val (outcome r)) df)"
    using n by (simp add: comp_def)
  show ?thesis
    using False vs
    by (simp add: selection_rate_dbl_def safe_rate_dbl_def astype_float_ones vals fo n' d
        selection_rate_eq comp_def)
qed

subsection \<open>Three fractional outcomes, step by step\<close>

lemma round_double_small: "round_double 1 = 1" "round_double 2 = 2" "round_double 3 = 3"
  using round_double_nat [of 1] round_double_nat [of 2] round_double_nat [of 3] by simp_all

lemma selection_rate_dbl_seq3:
  "selection_rate_dbl seq_sum
     [\<lparr>grp = g1, outcome = Num x\<rparr>, \<lparr>grp = g2, outcome = Num y\<rparr>, \<lparr>grp = g3, outcome = Num z\<rparr>] =
   Fin (round_double (round_double (round_double (round_double x + y) + z) / 3))"
  by (simp add: selection_rate_dbl_def safe_rate_dbl_def ones_def seq_sum_def round_double_small)

lemma selection_rate_dbl_fpr3:
  "selection_rate_dbl first_plus_rest
     [\<lparr>grp = g1, outcome = Num x\<rparr>, \<lparr>grp = g2, outcome = Num y\<rparr>, \<lparr>grp = g3, outcome = Num z\<rparr>] =
   Fin (round_double (round_double (x + round_double (round_double y + z)) / 3))"
  by (simp add: selection_rate_dbl_def safe_rate_dbl_def ones_def seq_sum_def round_double_small)

lemma dbl_step1: "round_double (1 / 10) = 3602879701896397 / 2 ^ 55"
proof -
  have "round_double (1 / 10) = of_int 7205759403792794 * 2 powi (- 56)"
    by (rule round_double_eval) simp_all
  also have "\<dots> = 3602879701896397 / 2 ^ 55" by simp
  finally show ?thesis .
qed

lemma dbl_step2: "round_double (2 / 10) = 3602879701896397 / 2 ^ 54"
proof -
  have "round_double (2 / 10) = of_int 7205759403792794 * 2 powi (- 55)"
    by (rule round_double_eval) simp_all
  also have "\<dots> = 3602879701896397 / 2 ^ 54" by simp
  finally show ?thesis .
qed

lemma dbl_step3: "round_double (3 / 10) = 5404319552844595 / 2 ^ 54"
proof -
  have "round_double (3 / 10) = of_int 5404319552844595 * 2 powi (- 54)"
    by (rule round_double_eval) simp_all
  also have "\<dots> = 5404319552844595 / 2 ^ 54" by simp
  finally show ?thesis .
qed

lemma dbl_step4: "round_double (3602879701896397 / 2 ^ 55) = 3602879701896397 / 2 ^ 55"
proof -
  have "round_double (3602879701896397 / 2 ^ 55) = of_int 7205759403792794 * 2 powi (- 56)"
    by (rule round_double_eval) simp_all
  also have "\<dots> = 3602879701896397 / 2 ^ 55" by simp
  finally show ?thesis .
qed

lemma dbl_step5: "round_double (3602879701896397 / 2 ^ 55 + 3602879701896397 / 2 ^ 54) = 1351079888211149 / 2 ^ 52"
proof -
  have "round_double (3602879701896397 / 2 ^ 55 + 3602879701896397 / 2 ^ 54) = of_int 5404319552844596 * 2 powi (- 54)"
    by (rule round_double_eval) simp_all
  also have "\<dots> = 1351079888211149 / 2 ^ 52" by simp
  finally show ?thesis .
qed

lemma dbl_step6: "round_double (1351079888211149 / 2 ^ 52 + 5404319552844595 / 2 ^ 54) = 1351079888211149 / 2 ^ 51"
proof -
  have "round_double (1351079888211149 / 2 ^ 52 + 5404319552844595 / 2 ^ 54) = of_int 5404319552844596 * 2 powi (- 53)"
    by (rule round_double_eval) simp_all
  also have "\<dots> = 1351079888211149 / 2 ^ 51" by simp
  finally show ?thesis .
qed

lemma dbl_step7: "round_double (1351079888211149 / 2 ^ 51 / 3) = 7205759403792795 / 2 ^ 55"
proof -
  have "round_double (1351079888211149 / 2 ^ 51 / 3) = of_int 7205759403792795 * 2 powi (- 55)"
    by (rule round_double_eval) simp_all
  also have "\<dots> = 7205759403792795 / 2 ^ 55" by simp
  finally show ?thesis .
qed

lemma dbl_step8: "round_double (5404319552844595 / 2 ^ 54) = 5404319552844595 / 2 ^ 54"
proof -
  have "round_double (5404319552844595 / 2 ^ 54) = of_int 5404319552844595 * 2 powi (- 54)"
    by (rule round_double_eval) simp_all
  also have "\<dots> = 5404319552844595 / 2 ^ 54" by simp
  finally show ?thesis .
qed

lemma dbl_step9: "round_double (5404319552844595 / 2 ^ 54 + 3602879701896397 / 2 ^ 54) = 1 / 2 ^ 1"
proof -
  have "round_double (5404319552844595 / 2 ^ 54 + 3602879701896397 / 2 ^ 54) = of_int 4503599627370496 * 2 powi (- 53)"
    by (rule round_double_eval) simp_all
  also have "\<dots> = 1 / 2 ^ 1" by simp
  finally show ?thesis .
qed

lemma dbl_step10: "round_double (1 / 2 ^ 1 + 3602879701896397 / 2 ^ 55) = 5404319552844595 / 2 ^ 53"
proof -
  have "round_double (1 / 2 ^ 1 + 3602879701896397 / 2 ^ 55) = of_int 5404319552844595 * 2 powi (- 53)"
    by (rule round_double_eval) simp_all
  also have "\<dots> = 5404319552844595 / 2 ^ 53" by simp
  finally show ?thesis .
qed

lemma dbl_step11: "round_double (5404319552844595 / 2 ^ 53 / 3) = 7205759403792793 / 2 ^ 55"
proof -
  have "round_double (5404319552844595 / 2 ^ 53 / 3) = of_int 7205759403792793 * 2 powi (- 55)"
    by (rule round_double_eval) simp_all
  also have "\<dots> = 7205759403792793 / 2 ^ 55" by simp
  finally show ?thesis .
qed

lemma dbl_step12: "round_double (3602879701896397 / 2 ^ 54) = 3602879701896397 / 2 ^ 54"
proof -
  have "round_double (3602879701896397 / 2 ^ 54) = of_int 7205759403792794 * 2 powi (- 55)"
    by (rule round_double_eval) simp_all
  also have "\<dots> = 3602879701896397 / 2 ^ 54" by simp
  finally show ?thesis .
qed

lemma dbl_step13: "round_double (3602879701896397 / 2 ^ 54 + 5404319552844595 / 2 ^ 54) = 1 / 2 ^ 1"
proof -
  have "round_double (3602879701896397 / 2 ^ 54 + 5404319552844595 / 2 ^ 54) = of_int 4503599627370496 * 2 powi (- 53)"
    by (rule round_double_eval) simp_all
  also have "\<dots> = 1 / 2 ^ 1" by simp
  finally show ?thesis .
qed

lemma dbl_step14: "round_double (3602879701896397 / 2 ^ 55 + 1 / 2 ^ 1) = 5404319552844595 / 2 ^ 53"
proof -
  have "round_double (3602879701896397 / 2 ^ 55 + 1 / 2 ^ 1) = of_int 5404319552844595 * 2 powi (- 53)"
    by (rule round_double_eval) simp_all
  also have "\<dots> = 5404319552844595 / 2 ^ 53" by simp
  finally show ?thesis .
qed

lemma dbl_step15: "round_double (3602879701896397 / 2 ^ 54 + 3602879701896397 / 2 ^ 55) = 1351079888211149 / 2 ^ 52"
proof -
  have "round_double (3602879701896397 / 2 ^ 54 + 3602879701896397 / 2 ^ 55) = of_int 5404319552844596 * 2 powi (- 54)"
    by (rule round_double_eval) simp_all
  also have "\<dots> = 1351079888211149 / 2 ^ 52" by simp
  finally show ?thesis .
qed

lemma dbl_step16: "round_double (5404319552844595 / 2 ^ 54 + 1351079888211149 / 2 ^ 52) = 1351079888211149 / 2 ^ 51"
proof -
  have "round_double (5404319552844595 / 2 ^ 54 + 1351079888211149 / 2 ^ 52) = of_int 5404319552844596 * 2 powi (- 53)"
    by (rule round_double_eval) simp_all
  also have "\<dots> = 1351079888211149 / 2 ^ 51" by simp
  finally show ?thesis .
qed

lemmas dbl_steps = dbl_step1 dbl_step2 dbl_step3 dbl_step4 dbl_step5 dbl_step6 dbl_step7 dbl_step8 dbl_step9 dbl_step10 dbl_step11 dbl_step12 dbl_step13 dbl_step14 dbl_step15 dbl_step16

section \<open>The properties of the specification\<close>

subsection \<open>C1: when the selection rate is undefined, and its range\<close>

text \<open>
  Claim C1 reads: the selection rate is undefined exactly when the frame has no rows or the
  outcome column has no numeric value, and lies in \<open>[0, 1]\<close> otherwise when the outcomes are
  0/1. On a column of missing values only, \<^verbatim>\<open>np.nansum\<close> yields 0 and the rate is 0, which
  is defined.
\<close>

theorem selection_rate_all_missing_counterexample:
  "\<not> (selection_rate [\<lparr>grp = Key ''F'', outcome = NA\<rparr>] = NaN \<longleftrightarrow>
        ([\<lparr>grp = Key ''F'', outcome = NA\<rparr>] = [] \<or>
         \<not> list_ex is_num (map outcome [\<lparr>grp = Key ''F'', outcome = NA\<rparr>])))"
  by (simp add: eval_defs)

text \<open>
  Claim C1 as the code has it: on a frame whose numeric outcomes are finite and not
  negative, the selection rate is undefined exactly when the frame has no rows or the
  outcome column holds a value that the coercion to \<^verbatim>\<open>float\<close> rejects; on a frame with
  rows whose outcomes are all 0, 1 or missing, the rate is defined and lies in \<open>[0, 1]\<close>.
  (Infinite outcomes are left out: the sum of \<^verbatim>\<open>inf\<close> and \<^verbatim>\<open>-inf\<close> is \<^verbatim>\<open>nan\<close>.)
\<close>

theorem selection_rate_undefined_iff:
  "((\<forall>r\<in>set df. nonneg_cell (outcome r)) \<longrightarrow>
      (selection_rate df = NaN \<longleftrightarrow> df = [] \<or> NonNumeric \<in> set (map outcome df))) \<and>
   (df \<noteq> [] \<and> (\<forall>r\<in>set df. outcome r \<in> {Num 0, Num 1, NA}) \<longrightarrow>
      (\<exists>x. selection_rate df = Fin x \<and> 0 \<le> x \<and> x \<le> 1))"
proof (intro conjI impI)
  show "selection_rate df = NaN \<longleftrightarrow> df = [] \<or> NonNumeric \<in> set (map outcome df)"
    by (simp add: selection_rate_eq)
next
  assume a: "df \<noteq> [] \<and> (\<forall>r\<in>set df. outcome r \<in> {Num 0, Num 1, NA})"
  then have nn: "NonNumeric \<notin> set (map outcome df)" by auto
  from a have b: "0 \<le> sum_list (map (\<lambda>r. cell_val (outcome r)) df)"
    "sum_list (map (\<lambda>r. cell_val (outcome r)) df) \<le> of_nat (length df)"
    using sum_cell_val_bounds by blast+
  from a have pos: "(0::rat) < of_nat (length df)" by simp
  let ?x = "sum_list (map (\<lambda>r. cell_val (outcome r)) df) / of_nat (length df)"
  have "selection_rate df = Fin ?x" using a nn by (simp add: selection_rate_eq)
  moreover have "0 \<le> ?x" using b pos by simp
  moreover have "?x \<le> 1" using b pos by (simp add: divide_le_eq)
  ultimately show "\<exists>x. selection_rate df = Fin x \<and> 0 \<le> x \<and> x \<le> 1" by blast
qed

text \<open>
  The theorem of C1 at \<open>tie_frame\<close> without its last row, where the rate is undefined, and
  at \<open>tie_frame\<close> without its uncoercible row, where the rate is defined.
\<close>

theorem selection_rate_undefined_iff_witness:
  "list_all (\<lambda>r. nonneg_cell (outcome r)) (butlast tie_frame) \<and>
   butlast tie_frame \<noteq> [] \<and> selection_rate (butlast tie_frame) = NaN \<and>
   NonNumeric \<in> set (map outcome (butlast tie_frame)) \<and>
   list_all (\<lambda>r. outcome r = Num 0 \<or> outcome r = Num 1 \<or> outcome r = NA) (filter (\<lambda>r. grp r \<noteq> Key ''Z'') tie_frame) \<and>
   (\<exists>x. selection_rate (filter (\<lambda>r. grp r \<noteq> Key ''Z'') tie_frame) = Fin x \<and> 0 \<le> x \<and> x \<le> 1)"
  using selection_rate_undefined_iff [of "butlast tie_frame"]
    selection_rate_undefined_iff [of "filter (\<lambda>r. grp r \<noteq> Key ''Z'') tie_frame"]
  by (simp add: tie_frame_def)

subsection \<open>C2: missing values, and coercion failures\<close>

text \<open>
  Claim C2 reads: every non-numeric or missing outcome contributes zero to the numerator and
  is counted in the denominator, and an exception of the coercion yields the undefined
  value. With the outcomes 1 and \<^verbatim>\<open>'abc'\<close> the rate would be \<open>(1 + 0) / 2\<close>; the coercion
  raises on \<^verbatim>\<open>'abc'\<close> and the rate is undefined.
\<close>

theorem selection_rate_non_numeric_counterexample:
  "selection_rate [\<lparr>grp = Key ''F'', outcome = Num 1\<rparr>, \<lparr>grp = Key ''F'', outcome = NonNumeric\<rparr>] = NaN \<and>
   selection_rate [\<lparr>grp = Key ''F'', outcome = Num 1\<rparr>, \<lparr>grp = Key ''F'', outcome = NonNumeric\<rparr>]
     \<noteq> Fin ((1 + 0) / 2)"
  by (simp add: eval_defs)

text \<open>
  Claim C2 as the code has it: when the coercion succeeds on a frame with rows, the rate is
  the sum of the numeric outcomes, a missing value adding zero, divided by the number of all
  rows; the coercion fails exactly when the column holds a value that \<^verbatim>\<open>float\<close> rejects,
  and every failure of the coercion yields the undefined value, as a value. On a column
  that has gone through the dashboard's \<^verbatim>\<open>to_numeric\<close> step, every non-numeric or missing
  value adds zero and is counted in the denominator.
\<close>

theorem selection_rate_missing_values:
  "(df \<noteq> [] \<and> NonNumeric \<notin> set (map outcome df) \<longrightarrow>
      selection_rate df = Fin (sum_list (map (\<lambda>r. cell_val (outcome r)) df) / of_nat (length df))) \<and>
   (\<forall>e. astype_float (map outcome df) = Inl e \<longrightarrow> selection_rate df = NaN) \<and>
   (astype_float (map outcome df) = Inl ValueError \<longleftrightarrow> NonNumeric \<in> set (map outcome df)) \<and>
   (df \<noteq> [] \<longrightarrow>
      selection_rate (coerce_outcomes df) =
        Fin (sum_list (map (\<lambda>r. cell_val (outcome r)) df) / of_nat (length df)))"
proof (intro conjI impI allI)
  assume "df \<noteq> [] \<and> NonNumeric \<notin> set (map outcome df)"
  then show "selection_rate df = Fin (sum_list (map (\<lambda>r. cell_val (outcome r)) df) / of_nat (length df))"
    by (simp add: selection_rate_eq)
next
  fix e assume "astype_float (map outcome df) = Inl e"
  then show "selection_rate df = NaN"
    by (simp add: selection_rate_def safe_rate_def)
next
  show "astype_float (map outcome df) = Inl ValueError \<longleftrightarrow> NonNumeric \<in> set (map outcome df)"
  proof (cases "NonNumeric \<in> set (map outcome df)")
    case True
    then show ?thesis by (simp add: astype_float_err)
  next
    case False
    then obtain vs where "astype_float (map outcome df) = Inr vs"
      using astype_float_ok by blast
    with False show ?thesis by simp
  qed
next
  assume "df \<noteq> []"
  then show "selection_rate (coerce_outcomes df) =
        Fin (sum_list (map (\<lambda>r. cell_val (outcome r)) df) / of_nat (length df))"
    by (rule selection_rate_coerced)
qed

text \<open>The theorem of C2 at a frame with a missing outcome, and at one with an uncoercible outcome.\<close>

theorem selection_rate_missing_values_witness:
  "selection_rate [\<lparr>grp = Key ''F'', outcome = Num 1\<rparr>, \<lparr>grp = Key ''M'', outcome = NA\<rparr>] = Fin (1 / 2) \<and>
   astype_float (map outcome (take 2 tie_frame)) = Inl ValueError \<and>
   selection_rate (take 2 tie_frame) = NaN \<and>
   selection_rate (coerce_outcomes (take 2 tie_frame)) = Fin (1 / 2)"
  using selection_rate_missing_values
          [of "[\<lparr>grp = Key ''F'', outcome = Num 1\<rparr>, \<lparr>grp = Key ''M'', outcome = NA\<rparr>]"]
    selection_rate_missing_values [of "take 2 tie_frame"]
  by (simp add: tie_frame_def coerce_outcomes_def)

subsection \<open>C3: a reference group that is not in the table\<close>

text \<open>
  Claim C3: when the reference passed to \<open>disparity_table\<close> is not among the grouped results,
  the overall rate takes the place of the reference rate and no error is raised. On a frame
  without rows no group has the reference \<^verbatim>\<open>X\<close>, and the call raises: \<open>group_rates\<close> fails
  with \<^verbatim>\<open>TypeError\<close> before the lookup, outside the \<^verbatim>\<open>try\<close> of \<open>disparity_table\<close>. (On
  every frame with rows the claim holds, by \<open>reference_absent_falls_back\<close>.)
\<close>

theorem absent_reference_on_empty_frame:
  "selection_rate ([] :: string dataframe) = NaN \<and>
   group_rates ([] :: string dataframe) = Inl TypeError \<and>
   disparity_table ([] :: string dataframe) (Some (Key ''X'')) = Inl TypeError"
  by (simp add: eval_defs)

subsection \<open>C4: the worked example\<close>

text \<open>
  Claim C4: on every frame made of the ten rows of the example, in any order, the overall
  selection rate is 0.4; \<open>group_rates\<close> returns \<^verbatim>\<open>F\<close> with \<open>n = 6\<close> and rate 0.5, then
  \<^verbatim>\<open>M\<close> with \<open>n = 4\<close> and rate 0.25; and \<open>disparity_table\<close> with the reference \<^verbatim>\<open>F\<close> has
  for \<^verbatim>\<open>M\<close> the difference \<open>-0.15\<close>, the risk ratio 0.625 and the ratio 0.5 to the reference.
\<close>

theorem example_gender_qualified:
  assumes "mset df = mset example_frame"
  shows "selection_rate df = Fin (2 / 5) \<and>
         group_rates df =
           Inr [\<lparr>gr_group = Key ''F'', gr_rate = Fin (1 / 2), gr_n = Some 6\<rparr>,
                \<lparr>gr_group = Key ''M'', gr_rate = Fin (1 / 4), gr_n = Some 4\<rparr>] \<and>
         disparity_table df (Some (Key ''F'')) =
           Inr [\<lparr>d_group = Key ''F'', d_rate = Fin (1 / 2), d_n = Some 6,
                 rate_diff_vs_overall = Fin (1 / 10), risk_ratio_vs_overall = Fin (5 / 4),
                 rate_vs_ref = Fin 1, reference_group = Some (Key ''F'')\<rparr>,
                \<lparr>d_group = Key ''M'', d_rate = Fin (1 / 4), d_n = Some 4,
                 rate_diff_vs_overall = Fin (- (15 / 100)), risk_ratio_vs_overall = Fin (625 / 1000),
                 rate_vs_ref = Fin (1 / 2), reference_group = Some (Key ''F'')\<rparr>]"
proof -
  have "(- (15 / 100) :: rat) = - (3 / 20)" and "(625 / 1000 :: rat) = 5 / 8" by simp_all
  then show ?thesis
    by (simp only: selection_rate_mset [OF assms] group_rates_mset [OF assms]
        disparity_table_mset [OF assms] example_selection_rate example_group_rates
        example_disparity_table simp_thms)
qed

text \<open>The theorem of C4 at the example frame read backwards.\<close>

theorem example_gender_qualified_witness:
  "mset (rev example_frame) = mset example_frame \<and>
   selection_rate (rev example_frame) = Fin (2 / 5) \<and>
   group_rates (rev example_frame) =
     Inr [\<lparr>gr_group = Key ''F'', gr_rate = Fin (1 / 2), gr_n = Some 6\<rparr>,
          \<lparr>gr_group = Key ''M'', gr_rate = Fin (1 / 4), gr_n = Some 4\<rparr>]"
  using example_gender_qualified [of "rev example_frame"] by simp

subsection \<open>C5: the order of the grouped rates\<close>

text \<open>
  Claim C5 reads: the grouped rates are sorted by descending rate, undefined rates last, and
  groups of equal rate stand in the order in which the groups were first met.
  \<^verbatim>\<open>groupby\<close> sorts the labels, so a frame that meets \<^verbatim>\<open>A\<close> before \<^verbatim>\<open>B\<close> and one that meets
  \<^verbatim>\<open>B\<close> before \<^verbatim>\<open>A\<close> yield the same table, however the sort places rows of equal rate:
  in one of the two frames the tied rows are not in the order of first meeting.
\<close>

theorem group_rates_encounter_order_counterexample:
  "group_rates ab_frame = group_rates ba_frame \<and>
   map gr_rate (table_of (group_rates ab_frame)) = [Fin 1, Fin 1] \<and>
   first_index (map grp ab_frame) (Key ''A'') < first_index (map grp ab_frame) (Key ''B'') \<and>
   first_index (map grp ba_frame) (Key ''B'') < first_index (map grp ba_frame) (Key ''A'') \<and>
   \<not> (encounter_ties ab_frame (table_of (group_rates ab_frame)) \<and>
      encounter_ties ba_frame (table_of (group_rates ba_frame)))"
  by (simp add: ab_frame_def ba_frame_def encounter_ties_def eval_defs)

text \<open>
  Claim C5 as the code has it: on a frame with rows \<open>group_rates\<close> returns a table; the table
  holds, for every label of the frame, the row of that group, each once; and it is sorted by
  descending rate with the undefined rates last. Nothing is said of the order of rows of
  equal rate.
\<close>

theorem group_rates_sorted:
  "(df \<noteq> [] \<longrightarrow> (\<exists>rows. group_rates df = Inr rows)) \<and>
   (\<forall>rows. group_rates df = Inr rows \<longrightarrow>
      mset rows = mset (map (group_row df) (group_keys df)) \<and>
      sorted_wrt (\<lambda>a b. rate_ge (gr_rate a) (gr_rate b)) rows)"
proof (intro conjI allI impI)
  assume "df \<noteq> []"
  then show "\<exists>rows. group_rates df = Inr rows" by (rule group_rates_total)
next
  fix rows assume "group_rates df = Inr rows"
  then have rows: "rows = sort_values_desc (map (group_row df) (group_keys df))"
    using group_rates_InrD by blast
  show "mset rows = mset (map (group_row df) (group_keys df))"
    unfolding rows by (rule mset_sort_values_desc)
next
  fix rows assume "group_rates df = Inr rows"
  then have rows: "rows = sort_values_desc (map (group_row df) (group_keys df))"
    using group_rates_InrD by blast
  show "sorted_wrt (\<lambda>a b. rate_ge (gr_rate a) (gr_rate b)) rows"
    unfolding rows by (rule sort_values_desc_rate_order)
qed

text \<open>The theorem of C5 at \<open>mixed_frame\<close>.\<close>

theorem group_rates_sorted_witness:
  "mixed_frame \<noteq> [] \<and>
   group_rates mixed_frame =
     Inr [\<lparr>gr_group = Key ''F'', gr_rate = Fin 1, gr_n = Some 1\<rparr>,
          \<lparr>gr_group = Key ''M'', gr_rate = Fin (1 / 2), gr_n = Some 2\<rparr>,
          \<lparr>gr_group = KeyNaN, gr_rate = Fin 0, gr_n = Some 1\<rparr>,
          \<lparr>gr_group = Key ''Z'', gr_rate = NaN, gr_n = Some 1\<rparr>]"
  using group_rates_sorted [of mixed_frame]
  by (simp add: mixed_frame_def eval_defs)

subsection \<open>C6: the group sizes add up\<close>

text \<open>
  Claim C6: the sizes \<open>n\<close> of the rows that \<open>group_rates\<close> returns add up to the number of
  rows of the frame. Every label of the grouping column, the missing one included, has its
  row in the table, every row carries the count of the frame's rows with its label, and no
  count is missing. \<open>group_rates\<close> returns a table for every frame with at least one row.
\<close>

theorem group_rates_sizes_sum:
  "(df \<noteq> [] \<longrightarrow> (\<exists>rows. group_rates df = Inr rows)) \<and>
   (\<forall>rows. group_rates df = Inr rows \<longrightarrow>
      set (map gr_group rows) = set (map grp df) \<and>
      (\<forall>r\<in>set rows. gr_n r = Some (length (filter (\<lambda>x. grp x = gr_group r) df))) \<and>
      (\<Sum>r\<leftarrow>rows. the (gr_n r)) = length df)"
proof (intro conjI allI impI ballI)
  assume "df \<noteq> []"
  then show "\<exists>rows. group_rates df = Inr rows" by (rule group_rates_total)
next
  fix rows
  assume "group_rates df = Inr rows"
  then have "set rows = set (map (group_row df) (group_keys df))"
    using group_rates_InrD mset_sort_values_desc mset_eq_setD by blast
  then have "set (map gr_group rows) = gr_group ` group_row df ` set (group_keys df)"
    by simp
  also have "\<dots> = set (group_keys df)"
    by (simp add: image_image group_row_def)
  finally show "set (map gr_group rows) = set (map grp df)"
    by (simp only: set_group_keys)
next
  fix rows r
  assume "group_rates df = Inr rows" and "r \<in> set rows"
  then have "r \<in> set (map (group_row df) (group_keys df))"
    using group_rates_InrD mset_sort_values_desc mset_eq_setD by blast
  then show "gr_n r = Some (length (filter (\<lambda>x. grp x = gr_group r) df))"
    by (auto simp: group_row_def group_frame_def)
next
  fix rows
  assume "group_rates df = Inr rows"
  then have rows: "rows = sort_values_desc (map (group_row df) (group_keys df))"
    using group_rates_InrD by blast
  have "(\<Sum>r\<leftarrow>rows. the (gr_n r)) = (\<Sum>r\<leftarrow>map (group_row df) (group_keys df). the (gr_n r))"
    unfolding rows by (rule sum_list_sort_values_desc)
  also have "\<dots> = (\<Sum>k\<leftarrow>group_keys df. length (group_frame df k))"
    by (simp add: comp_def group_row_def)
  also have "\<dots> = length df"
    by (rule sum_length_groups) (simp_all add: distinct_group_keys set_group_keys)
  finally show "(\<Sum>r\<leftarrow>rows. the (gr_n r)) = length df" .
qed

text \<open>The theorem of C6 at \<open>tie_frame\<close>, which has a row without label: four groups of one row.\<close>

theorem group_rates_sizes_sum_witness:
  "tie_frame \<noteq> [] \<and>
   (\<exists>rows. group_rates tie_frame = Inr rows \<and>
           list_ex (\<lambda>r. gr_group r = KeyNaN \<and> gr_n r = Some 1) rows \<and>
           (\<Sum>r\<leftarrow>rows. the (gr_n r)) = 4)"
proof -
  have ne: "tie_frame \<noteq> []" and len: "length tie_frame = 4"
    by (simp_all add: tie_frame_def)
  from group_rates_sizes_sum [of tie_frame] ne obtain rows where
    rows: "group_rates tie_frame = Inr rows" and sum: "(\<Sum>r\<leftarrow>rows. the (gr_n r)) = length tie_frame"
    by blast
  from rows have "list_ex (\<lambda>r. gr_group r = KeyNaN \<and> gr_n r = Some 1) rows"
    by (auto simp: tie_frame_def eval_defs)
  with ne rows sum len show ?thesis by auto
qed

subsection \<open>C7: the default reference group\<close>

text \<open>
  Claim C7 reads: without a reference, \<open>disparity_table\<close> on a frame with rows takes the
  group of the first row of the sorted rates, and \<open>rate_vs_ref\<close> is 1 in that group's row.
  When no outcome is positive the highest rate is 0, the guard \<^verbatim>\<open>ref_rate > 0\<close> fails and
  the whole column is undefined.
\<close>

theorem disparity_table_zero_rate_counterexample:
  "disparity_table [\<lparr>grp = Key ''F'', outcome = Num 0\<rparr>, \<lparr>grp = Key ''M'', outcome = Num 0\<rparr>] None =
     Inr [\<lparr>d_group = Key ''F'', d_rate = Fin 0, d_n = Some 1,
           rate_diff_vs_overall = Fin 0, risk_ratio_vs_overall = NaN,
           rate_vs_ref = NaN, reference_group = Some (Key ''F'')\<rparr>,
          \<lparr>d_group = Key ''M'', d_rate = Fin 0, d_n = Some 1,
           rate_diff_vs_overall = Fin 0, risk_ratio_vs_overall = NaN,
           rate_vs_ref = NaN, reference_group = Some (Key ''F'')\<rparr>]"
  by (simp add: eval_defs)

text \<open>
  Claim C7 as the code has it: on a frame with rows and without a reference,
  \<open>disparity_table\<close> returns a table with the rows of the grouped rates; the reference of
  every row is the group of the first row of the grouped rates, whose rate no other rate
  exceeds; when that group has a label and a defined, positive rate, \<open>rate_vs_ref\<close> is 1
  in the row of that group; and when it has a label and its rate is undefined or not
  positive, \<open>rate_vs_ref\<close> is undefined in every row.
\<close>

theorem disparity_table_default_reference:
  assumes "df \<noteq> []"
  shows "\<exists>rates tbl.
           group_rates df = Inr rates \<and> rates \<noteq> [] \<and>
           disparity_table df None = Inr tbl \<and>
           map d_group tbl = map gr_group rates \<and>
           (\<forall>r\<in>set rates. rate_ge (gr_rate (hd rates)) (gr_rate r)) \<and>
           (\<forall>row\<in>set tbl. reference_group row = Some (gr_group (hd rates))) \<and>
           (\<forall>k x. gr_group (hd rates) = Key k \<and> gr_rate (hd rates) = Fin x \<and> 0 < x \<longrightarrow>
              (\<forall>row\<in>set tbl. d_group row = Key k \<longrightarrow> rate_vs_ref row = Fin 1)) \<and>
           (\<forall>k. gr_group (hd rates) = Key k \<and> (\<forall>x. gr_rate (hd rates) = Fin x \<longrightarrow> x \<le> 0) \<longrightarrow>
              (\<forall>row\<in>set tbl. rate_vs_ref row = NaN))"
proof -
  from assms obtain rates where rates: "group_rates df = Inr rates"
    using group_rates_total by blast
  then have ne: "rates \<noteq> []" and dist: "distinct (map gr_group rates)"
    using group_rates_nonempty by blast+
  let ?ref = "Some (gr_group (hd rates))"
  let ?overall = "selection_rate df"
  let ?ref_rate = "case ref_lookup rates ?ref of Inl e \<Rightarrow> ?overall | Inr v \<Rightarrow> v"
  let ?mk = "\<lambda>r. \<lparr>d_group = gr_group r, d_rate = gr_rate r, d_n = gr_n r,
                 rate_diff_vs_overall = fl_sub (gr_rate r) ?overall,
                 risk_ratio_vs_overall =
                   (if usable ?overall then fl_div (gr_rate r) ?overall else NaN),
                 rate_vs_ref =
                   (if usable ?ref_rate then fl_div (gr_rate r) ?ref_rate else NaN),
                 reference_group = ?ref\<rparr>"
  let ?tbl = "map ?mk rates"
  have tbl: "disparity_table df None = Inr ?tbl"
    using rates ne by (simp add: disparity_table_def Let_def hd_conv_nth)
  have groups: "map d_group ?tbl = map gr_group rates" by (simp add: comp_def)
  have top: "\<forall>r\<in>set rates. rate_ge (gr_rate (hd rates)) (gr_rate r)"
  proof -
    have "sorted_wrt (\<lambda>a b. rate_ge (gr_rate a) (gr_rate b)) rates"
      using rates group_rates_InrD sort_values_desc_rate_order by metis
    with ne show ?thesis by (cases rates) (auto simp: rate_ge_refl)
  qed
  have refcol: "\<forall>row\<in>set ?tbl. reference_group row = ?ref" by simp
  have one: "\<forall>row\<in>set ?tbl. d_group row = Key k \<longrightarrow> rate_vs_ref row = Fin 1"
    if k: "gr_group (hd rates) = Key k" and x: "gr_rate (hd rates) = Fin x" and pos: "0 < x"
    for k x
  proof
    fix row assume "row \<in> set ?tbl"
    then obtain r where r: "r \<in> set rates" and row: "row = ?mk r" by auto
    have rr: "?ref_rate = Fin x"
      using ref_lookup_hd [OF ne k] k x by simp
    show "d_group row = Key k \<longrightarrow> rate_vs_ref row = Fin 1"
    proof
      assume "d_group row = Key k"
      then have "gr_group r = gr_group (hd rates)" using row k by simp
      moreover have "hd rates \<in> set rates" using ne by simp
      ultimately have "r = hd rates"
        using dist r by (meson distinct_map inj_onD)
      then have "gr_rate r = Fin x" using x by simp
      then show "rate_vs_ref row = Fin 1"
        using pos by (simp add: row rr usable_def)
    qed
  qed
  have none: "\<forall>row\<in>set ?tbl. rate_vs_ref row = NaN"
    if k: "gr_group (hd rates) = Key k" and np: "\<forall>x. gr_rate (hd rates) = Fin x \<longrightarrow> x \<le> 0"
    for k
  proof -
    have rr: "?ref_rate = gr_rate (hd rates)"
      using ref_lookup_hd [OF ne k] k by simp
    have "\<not> usable (gr_rate (hd rates))"
      using np by (cases "gr_rate (hd rates)") (auto simp: usable_def)
    then show ?thesis by (simp add: rr)
  qed
  from one have one': "\<forall>k x. gr_group (hd rates) = Key k \<and> gr_rate (hd rates) = Fin x \<and> 0 < x \<longrightarrow>
              (\<forall>row\<in>set ?tbl. d_group row = Key k \<longrightarrow> rate_vs_ref row = Fin 1)"
    by blast
  from none have none': "\<forall>k. gr_group (hd rates) = Key k \<and> (\<forall>x. gr_rate (hd rates) = Fin x \<longrightarrow> x \<le> 0) \<longrightarrow>
              (\<forall>row\<in>set ?tbl. rate_vs_ref row = NaN)"
    by blast
  from rates ne tbl groups top refcol one' none' show ?thesis
    by (intro exI [of _ rates] exI [of _ ?tbl] conjI)
qed

text \<open>
  The theorem of C7 at the example frame, where \<^verbatim>\<open>F\<close> has the highest rate, 0.5, and at a
  frame of one row with outcome 0.
\<close>

theorem disparity_table_default_reference_witness:
  "example_frame \<noteq> [] \<and>
   (\<exists>tbl. disparity_table example_frame None = Inr tbl \<and>
          map d_group tbl = [Key ''F'', Key ''M''] \<and>
          list_all (\<lambda>row. reference_group row = Some (Key ''F'')) tbl \<and>
          list_ex (\<lambda>row. d_group row = Key ''F'' \<and> rate_vs_ref row = Fin 1) tbl) \<and>
   (\<exists>tbl. disparity_table [\<lparr>grp = Key ''F'', outcome = Num 0\<rparr>] None = Inr tbl \<and>
          tbl \<noteq> [] \<and> list_all (\<lambda>row. rate_vs_ref row = NaN) tbl)"
proof -
  have zero: "\<exists>tbl. disparity_table [\<lparr>grp = Key ''F'', outcome = Num 0\<rparr>] None = Inr tbl \<and>
          tbl \<noteq> [] \<and> list_all (\<lambda>row. rate_vs_ref row = NaN) tbl"
  proof -
    have g0: "group_rates [\<lparr>grp = Key ''F'', outcome = Num 0\<rparr>] =
                Inr [\<lparr>gr_group = Key ''F'', gr_rate = Fin 0, gr_n = Some 1\<rparr>]"
      by (simp add: eval_defs)
    from disparity_table_default_reference [of "[\<lparr>grp = Key ''F'', outcome = Num 0\<rparr>]"]
    obtain rates tbl where
      r: "group_rates [\<lparr>grp = Key ''F'', outcome = Num 0\<rparr>] = Inr rates" and
      t: "disparity_table [\<lparr>grp = Key ''F'', outcome = Num 0\<rparr>] None = Inr tbl" and
      g: "map d_group tbl = map gr_group rates" and
      n: "\<forall>k. gr_group (hd rates) = Key k \<and> (\<forall>x. gr_rate (hd rates) = Fin x \<longrightarrow> x \<le> 0) \<longrightarrow>
              (\<forall>row\<in>set tbl. rate_vs_ref row = NaN)"
      by blast
    from r g0 have rates: "rates = [\<lparr>gr_group = Key ''F'', gr_rate = Fin 0, gr_n = Some 1\<rparr>]"
      by simp
    have "gr_group (hd rates) = Key ''F'' \<and> (\<forall>x. gr_rate (hd rates) = Fin x \<longrightarrow> x \<le> 0)"
      by (simp add: rates)
    with n have "\<forall>row\<in>set tbl. rate_vs_ref row = NaN" by blast
    then have "list_all (\<lambda>row. rate_vs_ref row = NaN) tbl" by (simp only: list_all_iff)
    moreover from g have "tbl \<noteq> []" by (auto simp: rates)
    ultimately show ?thesis using t by (intro exI [of _ tbl] conjI)
  qed
  have ne: "example_frame \<noteq> []" by (simp add: example_frame_def)
  from disparity_table_default_reference [OF ne] obtain rates tbl where
    r: "group_rates example_frame = Inr rates" and
    t: "disparity_table example_frame None = Inr tbl" and
    g: "map d_group tbl = map gr_group rates" and
    c: "\<forall>row\<in>set tbl. reference_group row = Some (gr_group (hd rates))" and
    o: "\<forall>k x. gr_group (hd rates) = Key k \<and> gr_rate (hd rates) = Fin x \<and> 0 < x \<longrightarrow>
              (\<forall>row\<in>set tbl. d_group row = Key k \<longrightarrow> rate_vs_ref row = Fin 1)"
    by blast
  from r have rates: "rates =
     [\<lparr>gr_group = Key ''F'', gr_rate = Fin (1 / 2), gr_n = Some 6\<rparr>,
      \<lparr>gr_group = Key ''M'', gr_rate = Fin (1 / 4), gr_n = Some 4\<rparr>]"
    by (simp add: example_group_rates)
  from g have groups: "map d_group tbl = [Key ''F'', Key ''M'']" by (simp add: rates)
  from c have refs: "list_all (\<lambda>row. reference_group row = Some (Key ''F'')) tbl"
    by (simp add: rates list_all_iff)
  have "gr_group (hd rates) = Key ''F'' \<and> gr_rate (hd rates) = Fin (1 / 2) \<and> (0::rat) < 1 / 2"
    by (simp add: rates)
  with o have "\<forall>row\<in>set tbl. d_group row = Key ''F'' \<longrightarrow> rate_vs_ref row = Fin 1"
    by blast
  moreover from groups obtain a b where "tbl = [a, b]" and "d_group a = Key ''F''"
    by (auto simp: map_eq_Cons_conv)
  ultimately have "list_ex (\<lambda>row. d_group row = Key ''F'' \<and> rate_vs_ref row = Fin 1) tbl"
    by simp
  with ne t groups refs have "\<exists>tbl. disparity_table example_frame None = Inr tbl \<and>
          map d_group tbl = [Key ''F'', Key ''M''] \<and>
          list_all (\<lambda>row. reference_group row = Some (Key ''F'')) tbl \<and>
          list_ex (\<lambda>row. d_group row = Key ''F'' \<and> rate_vs_ref row = Fin 1) tbl"
    by (intro conjI exI [of _ tbl])
  with ne zero show ?thesis by (intro conjI)
qed

subsection \<open>C8: an undefined overall rate\<close>

text \<open>
  Claim C8 reads: whenever the overall rate is undefined, for instance on an outcome column
  of null values only, \<open>disparity_table\<close> raises nothing and every \<open>rate_diff_vs_overall\<close> and
  \<open>risk_ratio_vs_overall\<close> of its table is undefined. On a column of null values only the
  overall rate is 0, not undefined, and so is every difference; only the ratios are
  undefined there.
\<close>

theorem disparity_table_all_missing_counterexample:
  "selection_rate [\<lparr>grp = Key ''F'', outcome = NA\<rparr>, \<lparr>grp = Key ''M'', outcome = NA\<rparr>] = Fin 0 \<and>
   disparity_table [\<lparr>grp = Key ''F'', outcome = NA\<rparr>, \<lparr>grp = Key ''M'', outcome = NA\<rparr>] None =
     Inr [\<lparr>d_group = Key ''F'', d_rate = Fin 0, d_n = Some 1,
           rate_diff_vs_overall = Fin 0, risk_ratio_vs_overall = NaN,
           rate_vs_ref = NaN, reference_group = Some (Key ''F'')\<rparr>,
          \<lparr>d_group = Key ''M'', d_rate = Fin 0, d_n = Some 1,
           rate_diff_vs_overall = Fin 0, risk_ratio_vs_overall = NaN,
           rate_vs_ref = NaN, reference_group = Some (Key ''F'')\<rparr>]"
  by (simp add: eval_defs)

text \<open>
  Claim C8 as the code has it: when the overall rate of a frame with rows is undefined,
  \<open>disparity_table\<close> returns a table, with or without a reference, and every
  \<open>rate_diff_vs_overall\<close> and every \<open>risk_ratio_vs_overall\<close> in it is undefined. When the
  outcome column of a frame with rows holds null values only, the overall rate is 0, and
  \<open>disparity_table\<close> returns a table in which every \<open>rate_diff_vs_overall\<close> is 0 and every
  \<open>risk_ratio_vs_overall\<close> is undefined.
\<close>

theorem undefined_overall_flows:
  "(df \<noteq> [] \<and> selection_rate df = NaN \<longrightarrow>
      (\<exists>tbl. disparity_table df reference = Inr tbl \<and> tbl \<noteq> [] \<and>
             (\<forall>row\<in>set tbl. rate_diff_vs_overall row = NaN \<and>
                             risk_ratio_vs_overall row = NaN))) \<and>
   (df \<noteq> [] \<and> (\<forall>r\<in>set df. outcome r = NA) \<longrightarrow>
      selection_rate df = Fin 0 \<and>
      (\<exists>tbl. disparity_table df reference = Inr tbl \<and> tbl \<noteq> [] \<and>
             (\<forall>row\<in>set tbl. rate_diff_vs_overall row = Fin 0 \<and>
                             risk_ratio_vs_overall row = NaN)))"
proof (intro conjI impI)
  assume a: "df \<noteq> [] \<and> selection_rate df = NaN"
  then obtain rates where rates: "group_rates df = Inr rates"
    using group_rates_total by blast
  then have "rates \<noteq> []" by (rule group_rates_nonempty)
  with rates a
  show "\<exists>tbl. disparity_table df reference = Inr tbl \<and> tbl \<noteq> [] \<and>
             (\<forall>row\<in>set tbl. rate_diff_vs_overall row = NaN \<and> risk_ratio_vs_overall row = NaN)"
    by (simp add: disparity_table_def Let_def usable_def fl_sub_NaN)
next
  assume a: "df \<noteq> [] \<and> (\<forall>r\<in>set df. outcome r = NA)"
  then show "selection_rate df = Fin 0" by (simp add: all_missing_rate)
next
  assume a: "df \<noteq> [] \<and> (\<forall>r\<in>set df. outcome r = NA)"
  then have overall: "selection_rate df = Fin 0" by (simp add: all_missing_rate)
  from a obtain rates where rates: "group_rates df = Inr rates"
    using group_rates_total by blast
  then have ne: "rates \<noteq> []" by (rule group_rates_nonempty)
  have zero: "\<forall>g\<in>set rates. gr_rate g = Fin 0"
    using rates a by (simp add: all_missing_group_rates)
  from rates ne overall zero
  show "\<exists>tbl. disparity_table df reference = Inr tbl \<and> tbl \<noteq> [] \<and>
             (\<forall>row\<in>set tbl. rate_diff_vs_overall row = Fin 0 \<and> risk_ratio_vs_overall row = NaN)"
    by (simp add: disparity_table_def Let_def usable_def)
qed

text \<open>
  The theorem of C8 at \<open>tie_frame\<close>, whose outcome column holds an uncoercible value, and at
  its last row alone, whose outcome is null.
\<close>

theorem undefined_overall_flows_witness:
  "tie_frame \<noteq> [] \<and> selection_rate tie_frame = NaN \<and>
   (\<exists>tbl. disparity_table tie_frame None = Inr tbl \<and> tbl \<noteq> [] \<and>
          list_all (\<lambda>row. rate_diff_vs_overall row = NaN \<and> risk_ratio_vs_overall row = NaN) tbl) \<and>
   list_all (\<lambda>r. outcome r = NA) (drop 3 tie_frame) \<and>
   selection_rate (drop 3 tie_frame) = Fin 0 \<and>
   (\<exists>tbl. disparity_table (drop 3 tie_frame) None = Inr tbl \<and> tbl \<noteq> [] \<and>
          list_all (\<lambda>row. rate_diff_vs_overall row = Fin 0 \<and> risk_ratio_vs_overall row = NaN) tbl)"
proof -
  have ne: "tie_frame \<noteq> []" and nan: "selection_rate tie_frame = NaN"
    by (simp_all add: tie_frame_def eval_defs)
  have ne': "drop 3 tie_frame \<noteq> []" and na: "\<forall>r\<in>set (drop 3 tie_frame). outcome r = NA"
    by (simp_all add: tie_frame_def)
  from undefined_overall_flows [of tie_frame None] ne nan
  have one: "\<exists>tbl. disparity_table tie_frame None = Inr tbl \<and> tbl \<noteq> [] \<and>
          list_all (\<lambda>row. rate_diff_vs_overall row = NaN \<and> risk_ratio_vs_overall row = NaN) tbl"
    by (simp add: list_all_iff)
  from undefined_overall_flows [of "drop 3 tie_frame" None] ne' na
  have two: "selection_rate (drop 3 tie_frame) = Fin 0 \<and>
     (\<exists>tbl. disparity_table (drop 3 tie_frame) None = Inr tbl \<and> tbl \<noteq> [] \<and>
          list_all (\<lambda>row. rate_diff_vs_overall row = Fin 0 \<and> risk_ratio_vs_overall row = NaN) tbl)"
    by (simp add: list_all_iff)
  from na have "list_all (\<lambda>r. outcome r = NA) (drop 3 tie_frame)"
    by (simp only: list_all_iff)
  with ne nan one two show ?thesis by (intro conjI) simp_all
qed

subsection \<open>C9: rates as percentages\<close>

text \<open>
  Claim C9: \<open>pct\<close> renders the undefined rate as \<^verbatim>\<open>-\<close> and 0.453 as \<^verbatim>\<open>45.3%\<close>; a
  defined rate \<open>x\<close> is rendered as a minus sign when \<open>x\<close> is negative, a nonempty string of
  decimal digits, a point, exactly one more digit and the percent sign, and the number so
  written differs from \<open>100 x\<close> by at most half a tenth. \<open>pct\<close> is a function of its argument
  alone.
\<close>

theorem pct_format:
  "pct NaN = ''-'' \<and> pct (Fin (453 / 1000)) = ''45.3%'' \<and>
   (\<exists>ds d. pct (Fin x) = (if x < 0 then ''-'' else '''') @ ds @ ''.'' @ [d] @ ''%'' \<and>
           ds \<noteq> [] \<and> list_all is_digit (ds @ [d]) \<and>
           \<bar>of_nat (nat_of_digits ds) + of_nat (digit_val d) / 10 - \<bar>x * 100\<bar>\<bar> \<le> 1 / 20)"
proof (intro conjI)
  show "pct NaN = ''-''" by simp
  show "pct (Fin (453 / 1000)) = ''45.3%''"
    by (simp add: format_1f_def round_half_even_def string_of_nat.simps digit_char_def)
  define t where "t = round_half_even (x * 100 * 10)"
  define a where "a = nat \<bar>t\<bar>"
  define ds where "ds = string_of_nat (a div 10)"
  define d where "d = digit_char (a mod 10)"
  have lt: "a mod 10 < 10" by simp
  have shape: "pct (Fin x) = (if x < 0 then ''-'' else '''') @ ds @ ''.'' @ [d] @ ''%''"
    by (simp add: format_1f_def Let_def t_def a_def ds_def d_def mult_less_0_iff)
  have ne: "ds \<noteq> []" and dig: "list_all is_digit ds" and val: "nat_of_digits ds = a div 10"
    using string_of_nat_props [of "a div 10"] by (simp_all add: ds_def)
  have dd: "is_digit d" and dv: "digit_val d = a mod 10"
    using digit_char_props [OF lt] by (simp_all add: d_def)
  have "\<bar>of_int t - x * 100 * 10\<bar> \<le> (1 / 2 :: rat)"
    unfolding t_def by (rule round_half_even_bound)
  then have "\<bar>\<bar>of_int t :: rat\<bar> / 10 - \<bar>x * 100\<bar>\<bar> \<le> 1 / 20"
    by (rule abs_tenth_bound)
  moreover have "(of_nat a :: rat) = \<bar>of_int t\<bar>"
    unfolding a_def by (simp only: of_nat_nat abs_ge_zero of_int_abs)
  ultimately have "\<bar>(of_nat a :: rat) / 10 - \<bar>x * 100\<bar>\<bar> \<le> 1 / 20"
    by (simp only:)
  then have "\<bar>of_nat (nat_of_digits ds) + of_nat (digit_val d) / 10 - \<bar>x * 100\<bar>\<bar> \<le> 1 / 20"
    by (simp only: val dv value_of_digits)
  with shape ne dig dd
  show "\<exists>ds d. pct (Fin x) = (if x < 0 then ''-'' else '''') @ ds @ ''.'' @ [d] @ ''%'' \<and>
           ds \<noteq> [] \<and> list_all is_digit (ds @ [d]) \<and>
           \<bar>of_nat (nat_of_digits ds) + of_nat (digit_val d) / 10 - \<bar>x * 100\<bar>\<bar> \<le> 1 / 20"
    by (intro exI [of _ ds] exI [of _ d]) simp
qed

text \<open>The theorem of C9 at the rate \<open>-0.15\<close>.\<close>

theorem pct_format_witness:
  "pct (Fin (- (15 / 100))) = ''-15.0%'' \<and>
   (\<exists>ds d. ''-15.0%'' = ''-'' @ ds @ ''.'' @ [d] @ ''%'' \<and> list_all is_digit (ds @ [d]))"
proof -
  have p: "pct (Fin (- (15 / 100))) = ''-15.0%''"
    by (simp add: format_1f_def round_half_even_def string_of_nat.simps digit_char_def)
  from pct_format [of "- (15 / 100)"] obtain ds d where
    "pct (Fin (- (15 / 100))) = ''-'' @ ds @ ''.'' @ [d] @ ''%''" and "list_all is_digit (ds @ [d])"
    by auto
  with p show ?thesis by (intro conjI exI [of _ ds] exI [of _ d]) simp_all
qed

subsection \<open>C10: the order of the rows\<close>

text \<open>
  Claim C10 reads: the selection rate of a frame does not change when its rows are
  reordered. The code adds doubles, and the sum of doubles depends on the order of the
  additions: the doubles written 0.1, 0.2, 0.3 give the rate 0.20000000000000004 when
  added from left to right and 0.19999999999999998 in the reverse order; when the first is
  added to the sum of the others it is the other way round.
\<close>

theorem selection_rate_dbl_order_counterexample:
  "selection_rate_dbl seq_sum fraction_frame = Fin (7205759403792795 / 2 ^ 55) \<and>
   selection_rate_dbl seq_sum (rev fraction_frame) = Fin (7205759403792793 / 2 ^ 55) \<and>
   selection_rate_dbl first_plus_rest fraction_frame = Fin (7205759403792793 / 2 ^ 55) \<and>
   selection_rate_dbl first_plus_rest (rev fraction_frame) = Fin (7205759403792795 / 2 ^ 55) \<and>
   (7205759403792795 / 2 ^ 55 :: rat) \<noteq> 7205759403792793 / 2 ^ 55"
proof -
  have r: "rev fraction_frame =
     [\<lparr>grp = Key ''F'', outcome = Num (round_double (3 / 10))\<rparr>,
      \<lparr>grp = Key ''F'', outcome = Num (round_double (2 / 10))\<rparr>,
      \<lparr>grp = Key ''F'', outcome = Num (round_double (1 / 10))\<rparr>]"
    by (simp only: fraction_frame_def rev.simps append.simps)
  show ?thesis
    unfolding r unfolding fraction_frame_def selection_rate_dbl_seq3 selection_rate_dbl_fpr3 dbl_steps
    by simp
qed

text \<open>
  Claim C10 as the code has it: the selection rate does not change when the rows are
  reordered, whatever the order of the additions before and after, on every frame with at
  most \<open>2 ^ 53\<close> rows whose outcomes are missing, rejected by the coercion, or natural
  numbers that add up to at most \<open>2 ^ 53\<close> (0/1 indicators, counts): all sums are exact
  there, and the rate is the exact quotient rounded once.
\<close>

theorem selection_rate_dbl_permutation:
  assumes "adds_all order" and "adds_all order'" and "mset df' = mset df"
    and "\<forall>r\<in>set df. count_cell (outcome r)"
    and "sum_list (map (\<lambda>r. cell_val (outcome r)) df) \<le> 2 ^ 53"
    and "length df \<le> 2 ^ 53"
  shows "selection_rate_dbl order' df' = selection_rate_dbl order df \<and>
         selection_rate_dbl order df =
           (case selection_rate df of Fin q \<Rightarrow> Fin (round_double q) | NaN \<Rightarrow> NaN)"
proof -
  have s: "set df' = set df" using assms(3) by (rule mset_eq_setD)
  have l: "length df' = length df" using assms(3) by (rule mset_eq_length)
  have "sum_mset (image_mset (\<lambda>r. cell_val (outcome r)) (mset df'))
      = sum_mset (image_mset (\<lambda>r. cell_val (outcome r)) (mset df))"
    by (simp only: assms(3))
  then have t: "sum_list (map (\<lambda>r. cell_val (outcome r)) df') = sum_list (map (\<lambda>r. cell_val (outcome r)) df)"
    by (simp only: sum_mset_sum_list [symmetric] mset_map)
  have one: "selection_rate_dbl order df =
           (case selection_rate df of Fin q \<Rightarrow> Fin (round_double q) | NaN \<Rightarrow> NaN)"
    using assms(1,4,5,6) by (rule selection_rate_dbl_exact)
  have "selection_rate_dbl order' df' =
           (case selection_rate df' of Fin q \<Rightarrow> Fin (round_double q) | NaN \<Rightarrow> NaN)"
  proof (rule selection_rate_dbl_exact)
    show "adds_all order'" by (rule assms(2))
    show "\<forall>r\<in>set df'. count_cell (outcome r)" using assms(4) by (simp only: s)
    show "sum_list (map (\<lambda>r. cell_val (outcome r)) df') \<le> 2 ^ 53" using assms(5) by (simp only: t)
    show "length df' \<le> 2 ^ 53" using assms(6) by (simp only: l)
  qed
  also have "selection_rate df' = selection_rate df" using assms(3) by (rule selection_rate_mset)
  finally show ?thesis using one by simp
qed

text \<open>
  The theorem of C10 at the example frame, added from left to right, and at its reverse,
  the first outcome added to the sum of the others.
\<close>

theorem selection_rate_dbl_permutation_witness:
  "adds_all seq_sum \<and> adds_all first_plus_rest \<and>
   mset (rev example_frame) = mset example_frame \<and>
   list_all (\<lambda>r. count_cell (outcome r)) example_frame \<and>
   selection_rate_dbl first_plus_rest (rev example_frame) = selection_rate_dbl seq_sum example_frame \<and>
   selection_rate_dbl seq_sum example_frame = Fin (round_double (2 / 5))"
proof -
  have c: "\<forall>r\<in>set example_frame. count_cell (outcome r)"
    by (simp add: example_frame_def)
  have t: "sum_list (map (\<lambda>r. cell_val (outcome r)) example_frame) \<le> 2 ^ 53"
    by (simp add: example_frame_def)
  have l: "length example_frame \<le> 2 ^ 53" by (simp add: example_frame_def)
  have m: "mset (rev example_frame) = mset example_frame" by simp
  from selection_rate_dbl_permutation [OF adds_all_seq_sum adds_all_first_plus_rest m c t l]
  have "selection_rate_dbl first_plus_rest (rev example_frame) = selection_rate_dbl seq_sum example_frame"
    and "selection_rate_dbl seq_sum example_frame = Fin (round_double (2 / 5))"
    by (simp_all add: example_selection_rate)
  moreover from c have "list_all (\<lambda>r. count_cell (outcome r)) example_frame"
    by (simp only: list_all_iff)
  ultimately show ?thesis using adds_all_seq_sum adds_all_first_plus_rest m by (intro conjI)
qed

end
